theory Spec2Isabelle
  imports Main "HOL-Library.AList" "HOL-Library.Multiset"
begin

section \<open>Python values used by utility.py\<close>

text \<open>
  Strings are \<^typ>\<open>string\<close>; the model covers ASCII text, where \<open>str.upper\<close> maps
  \<open>a..z\<close> to \<open>A..Z\<close> and \<open>str.strip\<close> removes the ASCII whitespace characters.
  A \<open>dict\<close> is an association list in insertion order (\<open>AList.update\<close> overwrites a
  key in place and appends a new one, as assignment to a Python dict does).
  Every exception the code can raise is a value of \<open>error\<close>.
\<close>

datatype error = ValueError | IndexError | KeyError | EOFError | FileNotFoundError
  | JSONDecodeError | Unsupported

type_synonym 'v dict = "(string \<times> 'v) list"

subsection \<open>String methods\<close>

definition ascii_lowercase :: string where
  "ascii_lowercase = ''abcdefghijklmnopqrstuvwxyz''"

definition ascii_uppercase :: string where
  "ascii_uppercase = ''ABCDEFGHIJKLMNOPQRSTUVWXYZ''"

definition upper_char :: "char \<Rightarrow> char" where
  "upper_char c =
     (case map_of (zip ascii_lowercase ascii_uppercase) c of None \<Rightarrow> c | Some u \<Rightarrow> u)"

definition upper :: "string \<Rightarrow> string" where
  "upper s = map upper_char s"

text \<open>\<open>s.rfind(c)\<close>: the highest index of \<open>c\<close> in \<open>s\<close>, or \<open>-1\<close>.\<close>

definition rfind :: "string \<Rightarrow> char \<Rightarrow> int" where
  "rfind s c =
     (if c \<in> set s
      then int (length s) - 1 - int (length (takeWhile (\<lambda>x. x \<noteq> c) (rev s)))
      else - 1)"

text \<open>\<open>s[a:b]\<close>: negative bounds count from the end, and both are clipped to the string.\<close>

definition clip_index :: "int \<Rightarrow> nat \<Rightarrow> nat" where
  "clip_index i n = (if i < 0 then nat (max 0 (i + int n)) else min (nat i) n)"

definition slice :: "'a list \<Rightarrow> int \<Rightarrow> int \<Rightarrow> 'a list" where
  "slice s a b =
     (let lo = clip_index a (length s); hi = clip_index b (length s)
      in take (hi - lo) (drop lo s))"

text \<open>\<open>s.split(sep)\<close> for a one-character separator: never empty, \<open>''.split('-') == ['']\<close>.\<close>

fun split :: "char \<Rightarrow> string \<Rightarrow> string list" where
  "split sep [] = [[]]"
| "split sep (c # cs) =
     (if c = sep then [] # split sep cs
      else (case split sep cs of [] \<Rightarrow> [[c]] | w # ws \<Rightarrow> (c # w) # ws))"

text \<open>
  \<open>s.strip()\<close> removes leading and trailing whitespace; on ASCII text these are the
  characters for which \<open>str.isspace\<close> holds.
\<close>

definition whitespace :: string where
  "whitespace = [CHR 0x09, CHR 0x0A, CHR 0x0B, CHR 0x0C, CHR 0x0D,
                 CHR 0x1C, CHR 0x1D, CHR 0x1E, CHR 0x1F, CHR 0x20]"

definition isspace :: "char \<Rightarrow> bool" where
  "isspace c = (c \<in> set whitespace)"

definition lstrip :: "string \<Rightarrow> string" where
  "lstrip s = dropWhile isspace s"

definition rstrip :: "string \<Rightarrow> string" where
  "rstrip s = rev (dropWhile isspace (rev s))"

definition strip :: "string \<Rightarrow> string" where
  "strip s = lstrip (rstrip s)"

text \<open>\<open>sub in s\<close> on strings is the substring test.\<close>

fun contains :: "string \<Rightarrow> string \<Rightarrow> bool" where
  "contains [] sub = (sub = [])"
| "contains (c # cs) sub = (take (length sub) (c # cs) = sub \<or> contains cs sub)"

text \<open>\<open>'{:d}'.format(n)\<close> for a non-negative integer.\<close>

definition digits :: string where
  "digits = ''0123456789''"

function decimal :: "nat \<Rightarrow> string" where
  "decimal n = (if n < 10 then [digits ! n] else decimal (n div 10) @ [digits ! (n mod 10)])"
  by pat_completeness auto
termination
  by (relation "measure (\<lambda>n. n)") auto

declare decimal.simps [simp del]

text \<open>\<open>'{}'.format(v)\<close> for a value that is a string or \<open>None\<close>.\<close>

type_synonym cell = "string option"

definition str_of :: "cell \<Rightarrow> string" where
  "str_of v = (case v of None \<Rightarrow> ''None'' | Some s \<Rightarrow> s)"

section \<open>extract_info_from_csvfilename\<close>

text \<open>
  The starred assignment \<open>maker, model, *_, condition = csv_name.split('-')\<close> needs at
  least three segments and raises \<open>ValueError\<close> otherwise.
\<close>

definition extract_info_from_csvfilename :: "string \<Rightarrow> error + string dict" where
  "extract_info_from_csvfilename csv_name0 =
     (let csv_name =
            (if CHR ''/'' \<in> set csv_name0
             then slice csv_name0 (rfind csv_name0 CHR ''/'' + 1) (rfind csv_name0 CHR ''.'')
             else csv_name0);
          segs = split CHR ''-'' csv_name
      in if length segs < 3 then Inl ValueError
         else (let maker = segs ! 0; model = segs ! 1; condition = last segs;
                   res = [maker, model, condition]
               in Inr (zip [''maker'', ''model'', ''condition''] (map upper res))))"

text \<open>The hyphen-delimited name built from a list of segments (\<open>'-'.join(segs)\<close>).\<close>

fun hyphenated :: "string list \<Rightarrow> string" where
  "hyphenated [] = []"
| "hyphenated [s] = s"
| "hyphenated (s # t # ts) = s @ CHR ''-'' # hyphenated (t # ts)"

section \<open>The process environment\<close>

text \<open>
  The nested dataset \<open>cars_com_make_model.json\<close> after \<open>json.load\<close>: the list under
  key \<open>all\<close> of maker objects with \<open>nm\<close>, \<open>id\<close> and \<open>md\<close>, the latter a list of
  model objects with \<open>nm\<close> and \<open>id\<close>.
\<close>

datatype model_entry = Model (model_nm: string) (model_id: string)

datatype maker_entry = Maker (maker_nm: string) (maker_id: string) (maker_md: "model_entry list")

text \<open>
  A file is either a CSV table (its records, each a list of fields, the quoting of the
  \<open>csv\<close> module abstracted away) or a nested dataset. A path that holds the other kind
  of file than the one the code parses is outside the model and reported as
  \<open>Unsupported\<close>.

  The world holds the directory of the module (\<open>os.path.dirname(os.path.realpath(__file__))\<close>),
  the files by path, the paths for which \<open>os.remove\<close> raises \<open>OSError\<close>, what has been
  written to standard output, the lines still to be read from standard input, and the
  state of the \<open>random\<close> module: the draws still to come, followed by zeros for ever.
\<close>

datatype content = Table "string list list" | Nested "maker_entry list"

record world =
  module_dir :: string
  files :: "(string \<times> content) list"
  locked :: "string list"
  stdout :: string
  stdin :: "string list"
  rng :: "nat list"

datatype 'a result = Return 'a | Raise error | Exit nat

definition print :: "string \<Rightarrow> world \<Rightarrow> world" where
  "print s w = w\<lparr>stdout := stdout w @ s @ [CHR 0x0A]\<rparr>"

definition print_noend :: "string \<Rightarrow> world \<Rightarrow> world" where
  "print_noend s w = w\<lparr>stdout := stdout w @ s\<rparr>"

definition path_exists :: "string \<Rightarrow> world \<Rightarrow> bool" where
  "path_exists p w = (map_of (files w) p \<noteq> None)"

text \<open>\<open>os.path.join(a, b)\<close> for a relative \<open>b\<close>.\<close>

definition path_join :: "string \<Rightarrow> string \<Rightarrow> string" where
  "path_join a b = (if a = [] then b else if last a = CHR ''/'' then a @ b else a @ CHR ''/'' # b)"

section \<open>write_cars_to_csv\<close>

text \<open>
  \<open>DictWriter.writerow\<close> raises \<open>ValueError\<close> on a row with a key that is not a field
  name, and writes the empty string for a field name the row lacks. The rows written
  before the error stay in the file, which the \<open>with\<close> statement closes. Opening
  the destination for writing is taken to succeed.
\<close>

definition dict_to_list :: "string list \<Rightarrow> string dict \<Rightarrow> error + string list" where
  "dict_to_list fieldnames rowdict =
     (if \<exists>k \<in> set (map fst rowdict). k \<notin> set fieldnames then Inl ValueError
      else Inr (map (\<lambda>key. case map_of rowdict key of None \<Rightarrow> [] | Some v \<Rightarrow> v) fieldnames))"

fun writerows :: "string list \<Rightarrow> string dict list \<Rightarrow> string list list
    \<Rightarrow> (error + unit) \<times> string list list" where
  "writerows fieldnames [] written = (Inr (), written)"
| "writerows fieldnames (row # rows) written =
     (case dict_to_list fieldnames row of
        Inl e \<Rightarrow> (Inl e, written)
      | Inr values \<Rightarrow> writerows fieldnames rows (written @ [values]))"

text \<open>Lines 76 to 82: the deletion of a previous file of the same name.\<close>

definition remove_previous :: "string \<Rightarrow> world \<Rightarrow> unit result \<times> world" where
  "remove_previous csv_name w =
     (if path_exists csv_name w then
        (if csv_name \<in> set (locked w)
         then (Exit 1, print (''error in deleting '' @ csv_name) w)
         else (Return (),
               print (''delete previous '' @ csv_name)
                 (w\<lparr>files := AList.delete csv_name (files w)\<rparr>)))
      else (Return (), w))"

definition write_cars_to_csv :: "string \<Rightarrow> string list \<Rightarrow> string dict list \<Rightarrow> world
    \<Rightarrow> unit result \<times> world" where
  "write_cars_to_csv csv_name csv_header csv_rows w =
     (case remove_previous csv_name w of
        (Return _, w1) \<Rightarrow>
          (case writerows csv_header csv_rows [csv_header] of
             (Inl e, written) \<Rightarrow>
               (Raise e, w1\<lparr>files := AList.update csv_name (Table written) (files w1)\<rparr>)
           | (Inr _, written) \<Rightarrow>
               (Return (),
                print (''Writing '' @ decimal (length csv_rows) @ '' cars information to ''
                         @ csv_name)
                  (w1\<lparr>files := AList.update csv_name (Table written) (files w1)\<rparr>)))
      | (Raise e, w1) \<Rightarrow> (Raise e, w1)
      | (Exit n, w1) \<Rightarrow> (Exit n, w1))"

section \<open>extract_maker_model_codes\<close>

text \<open>
  The two nested \<open>for\<close> loops. \<open>car_dict\<close> is one dictionary updated in place and
  copied into \<open>csv_rows\<close> for every model; \<open>model_name[0]\<close> raises \<open>IndexError\<close> on
  the empty string.
\<close>

fun model_loop :: "model_entry list \<Rightarrow> string dict \<Rightarrow> string dict list
    \<Rightarrow> error + (string dict \<times> string dict list)" where
  "model_loop [] car_dict csv_rows = Inr (car_dict, csv_rows)"
| "model_loop (model # models) car_dict csv_rows =
     (let model_name = strip (model_nm model)
      in case model_name of
           [] \<Rightarrow> Inl IndexError
         | c # _ \<Rightarrow>
             (let model_name = (if c = CHR ''-'' then strip (drop 1 model_name) else model_name);
                  car_dict = AList.update ''model'' model_name car_dict;
                  car_dict = AList.update ''model code'' (model_id model) car_dict
              in model_loop models car_dict (csv_rows @ [car_dict])))"

fun maker_loop :: "maker_entry list \<Rightarrow> string dict \<Rightarrow> string dict list
    \<Rightarrow> error + (string dict \<times> string dict list)" where
  "maker_loop [] car_dict csv_rows = Inr (car_dict, csv_rows)"
| "maker_loop (maker # makers) car_dict csv_rows =
     (let car_dict = AList.update ''maker'' (strip (maker_nm maker)) car_dict;
          car_dict = AList.update ''maker code'' (maker_id maker) car_dict
      in case model_loop (maker_md maker) car_dict csv_rows of
           Inl e \<Rightarrow> Inl e
         | Inr (car_dict, csv_rows) \<Rightarrow> maker_loop makers car_dict csv_rows)"

definition csv_header :: "string list" where
  "csv_header = [''maker'', ''model'', ''maker code'', ''model code'']"

definition extract_maker_model_codes :: "string \<Rightarrow> world \<Rightarrow> unit result \<times> world" where
  "extract_maker_model_codes csv_name w =
     (let dir_path = module_dir w
      in case map_of (files w) (path_join dir_path ''cars_com_make_model.json'') of
           None \<Rightarrow> (Raise FileNotFoundError, w)
         | Some (Table _) \<Rightarrow> (Raise Unsupported, w)
         | Some (Nested data) \<Rightarrow>
             (case maker_loop data [] [] of
                Inl e \<Rightarrow> (Raise e, w)
              | Inr (_, csv_rows) \<Rightarrow> write_cars_to_csv csv_name csv_header csv_rows w))"

text \<open>The (maker, model) pairs of a nested dataset, in its iteration order.\<close>

definition maker_model_pairs :: "maker_entry list \<Rightarrow> (maker_entry \<times> model_entry) list" where
  "maker_model_pairs data = concat (map (\<lambda>maker. map (Pair maker) (maker_md maker)) data)"

text \<open>
  The normalisation of a model name in the words of the specification: the display name
  trimmed of surrounding whitespace and, when the trimmed name begins with a hyphen, with
  that hyphen and any whitespace following it removed.
\<close>

definition trimmed :: "string \<Rightarrow> string" where
  "trimmed s = rev (dropWhile isspace (rev (dropWhile isspace s)))"

definition spec_model_name :: "string \<Rightarrow> string" where
  "spec_model_name display =
     (case trimmed display of
        [] \<Rightarrow> []
      | c # cs \<Rightarrow> if c = CHR ''-'' then dropWhile isspace cs else c # cs)"

section \<open>guess_car_brand\<close>

subsection \<open>Reading the store\<close>

text \<open>
  \<open>csv.DictReader\<close>: the first record gives the field names, empty records are skipped,
  and every other record becomes a dictionary in which the fields a short record lacks
  are \<open>None\<close>. (The list a long record leaves under the key \<open>None\<close> is never read here
  and is left out.)
\<close>

definition dict_of_row :: "string list \<Rightarrow> string list \<Rightarrow> cell dict" where
  "dict_of_row fieldnames row =
     foldl (\<lambda>d (k, v). AList.update k v d) []
       (zip fieldnames (map Some row @ replicate (length fieldnames - length row) None))"

definition DictReader :: "string list list \<Rightarrow> cell dict list" where
  "DictReader table =
     (case table of
        [] \<Rightarrow> []
      | fieldnames # rows \<Rightarrow> map (dict_of_row fieldnames) (filter (\<lambda>row. row \<noteq> []) rows))"

text \<open>
  A Python \<open>set\<close> is a list without duplicates; its iteration order is not specified by
  Python and nothing below depends on it.
\<close>

definition set_add :: "'a \<Rightarrow> 'a list \<Rightarrow> 'a list" where
  "set_add x xs = (if x \<in> set xs then xs else xs @ [x])"

fun load_loop :: "'v dict list \<Rightarrow> 'v list \<Rightarrow> ('v \<times> 'v) list
    \<Rightarrow> error + ('v list \<times> ('v \<times> 'v) list)" where
  "load_loop [] brands model_brand_pairs = Inr (brands, model_brand_pairs)"
| "load_loop (line # lines) brands model_brand_pairs =
     (case map_of line ''maker'' of
        None \<Rightarrow> Inl KeyError
      | Some maker \<Rightarrow>
          (case map_of line ''model'' of
             None \<Rightarrow> Inl KeyError
           | Some model \<Rightarrow>
               load_loop lines (set_add maker brands)
                 (AList.update model maker model_brand_pairs)))"

subsection \<open>The random module\<close>

text \<open>
  \<open>randbelow n\<close> takes the next draw, reduced below \<open>n\<close>. \<open>random.choice\<close> raises
  \<open>IndexError\<close> on an empty sequence. \<open>random.sample\<close> (of the Python versions that
  accept a set, which they first copy to a tuple) raises \<open>ValueError\<close> when the sample
  is larger than the population, and otherwise picks \<open>k\<close> times a position of the pool,
  moving the last element of the pool into the hole. (For a population of more than 21
  elements CPython instead redraws until the position is a new one; the samples that can
  come out are the same, \<open>k\<close> elements at distinct positions.) \<open>random.shuffle\<close>
  swaps position \<open>i\<close>, from the last down to 1, with a position drawn below \<open>i + 1\<close>.
\<close>

definition randbelow :: "nat \<Rightarrow> nat list \<Rightarrow> nat \<times> nat list" where
  "randbelow n g = (case g of [] \<Rightarrow> (0, []) | r # g' \<Rightarrow> (r mod n, g'))"

definition random_choice :: "'a list \<Rightarrow> nat list \<Rightarrow> error + ('a \<times> nat list)" where
  "random_choice seq g =
     (if seq = [] then Inl IndexError
      else (let (i, g') = randbelow (length seq) g in Inr (seq ! i, g')))"

fun sample_pool :: "'a list \<Rightarrow> nat \<Rightarrow> nat list \<Rightarrow> 'a list \<times> nat list" where
  "sample_pool pool 0 g = ([], g)"
| "sample_pool pool (Suc k) g =
     (let (j, g1) = randbelow (length pool) g;
          (result, g2) = sample_pool (butlast (pool[j := last pool])) k g1
      in (pool ! j # result, g2))"

definition random_sample :: "'a list \<Rightarrow> nat \<Rightarrow> nat list \<Rightarrow> error + ('a list \<times> nat list)" where
  "random_sample population k g =
     (if k \<le> length population then Inr (sample_pool population k g) else Inl ValueError)"

fun shuffle_loop :: "nat \<Rightarrow> 'a list \<Rightarrow> nat list \<Rightarrow> 'a list \<times> nat list" where
  "shuffle_loop 0 x g = (x, g)"
| "shuffle_loop (Suc i) x g =
     (let (j, g1) = randbelow (Suc i + 1) g
      in shuffle_loop i (x[Suc i := x ! j, j := x ! Suc i]) g1)"

definition random_shuffle :: "'a list \<Rightarrow> nat list \<Rightarrow> 'a list \<times> nat list" where
  "random_shuffle x g = shuffle_loop (length x - 1) x g"

subsection \<open>The question loop\<close>

definition num_questions :: nat where
  "num_questions = 10"

definition num_choices :: nat where
  "num_choices = 4"

definition letters :: string where
  "letters = take num_choices ascii_uppercase"

text \<open>
  \<open>input('> ')\<close> writes the prompt and reads a line, raising \<open>EOFError\<close> at the end of
  the input. The loop \<open>while True\<close> leaves with the first line whose upper-cased form
  passes \<open>user_choice in letters\<close>.
\<close>

fun input_loop :: "string list \<Rightarrow> string \<Rightarrow> (error + string) \<times> string list \<times> string" where
  "input_loop [] out = (Inl EOFError, [], out @ ''> '')"
| "input_loop (line # lines) out =
     (let user_choice = upper line
      in if contains letters user_choice then (Inr user_choice, lines, out @ ''> '')
         else input_loop lines (out @ ''> '' @ ''please pick a valid choice'' @ [CHR 0x0A]))"

definition pick_valid_choice :: "world \<Rightarrow> string result \<times> world" where
  "pick_valid_choice w =
     (case input_loop (stdin w) (stdout w) of
        (Inl e, lines, out) \<Rightarrow> (Raise e, w\<lparr>stdin := lines, stdout := out\<rparr>)
      | (Inr user_choice, lines, out) \<Rightarrow> (Return user_choice, w\<lparr>stdin := lines, stdout := out\<rparr>))"

text \<open>
  Lines 126 to 129: three brands sampled from \<open>brands\<close>, the correct brand appended,
  the four shuffled and zipped with the letters into the ordered dictionary \<open>d\<close>.
\<close>

definition offer_choices :: "cell list \<Rightarrow> cell \<Rightarrow> nat list
    \<Rightarrow> error + ((string \<times> cell) list \<times> nat list)" where
  "offer_choices brands brand g =
     (case random_sample brands (num_choices - 1) g of
        Inl e \<Rightarrow> Inl e
      | Inr (choices, g1) \<Rightarrow>
          (let choices = choices @ [brand];
               (choices, g2) = random_shuffle choices g1;
               d = zip (map (\<lambda>c. [c]) letters) choices
           in Inr (d, g2)))"

text \<open>
  One pass through the body of \<open>while count > 0\<close> (\<open>cnt\<close> below), after the counters have been
  stepped: it returns the new value of \<open>num_correct\<close>.
\<close>

definition ask_question :: "cell list \<Rightarrow> (cell \<times> cell) list \<Rightarrow> nat \<Rightarrow> nat \<Rightarrow> world
    \<Rightarrow> nat result \<times> world" where
  "ask_question brands model_brand_pairs question_num num_correct w =
     (case random_choice model_brand_pairs (rng w) of
        Inl e \<Rightarrow> (Raise e, w)
      | Inr ((model, brand), g1) \<Rightarrow>
          (let w1 = print (decimal question_num @ ''. What is the brand of '' @ str_of model
                      @ ''? (choose one from '' @ [hd letters] @ '' to '' @ [last letters] @ '')'')
                      (w\<lparr>rng := g1\<rparr>)
           in case offer_choices brands brand (rng w1) of
                Inl e \<Rightarrow> (Raise e, w1)
              | Inr (d, g2) \<Rightarrow>
                  (let w2 = foldl (\<lambda>w (letter, choice).
                                     print_noend (letter @ ''. '' @ str_of choice @ ''  '') w)
                              (w1\<lparr>rng := g2\<rparr>) d;
                       w3 = print [] w2
                   in case pick_valid_choice w3 of
                        (Return user_choice, w4) \<Rightarrow>
                          (if map_of d user_choice = Some brand
                           then (Return (num_correct + 1), print ''correct!'' w4)
                           else (Return num_correct,
                                 print (str_of model @ '' belongs to '' @ str_of brand @ ''!'')
                                   (print ''wrong!'' w4)))
                      | (Raise e, w4) \<Rightarrow> (Raise e, w4)
                      | (Exit n, w4) \<Rightarrow> (Exit n, w4))))"

fun question_loop :: "nat \<Rightarrow> nat \<Rightarrow> nat \<Rightarrow> cell list \<Rightarrow> (cell \<times> cell) list \<Rightarrow> world
    \<Rightarrow> nat result \<times> world" where
  "question_loop 0 question_num num_correct brands model_brand_pairs w = (Return num_correct, w)"
| "question_loop (Suc cnt) question_num num_correct brands model_brand_pairs w =
     (case ask_question brands model_brand_pairs (question_num + 1) num_correct w of
        (Return num_correct', w') \<Rightarrow>
          question_loop cnt (question_num + 1) num_correct' brands model_brand_pairs w'
      | (Raise e, w') \<Rightarrow> (Raise e, w')
      | (Exit n, w') \<Rightarrow> (Exit n, w'))"

definition run_quiz :: "cell list \<Rightarrow> (cell \<times> cell) list \<Rightarrow> world \<Rightarrow> unit result \<times> world" where
  "run_quiz brands model_brand_pairs w =
     (case question_loop num_questions 0 0 brands model_brand_pairs w of
        (Return num_correct, w') \<Rightarrow>
          (Return (),
           print (''Score '' @ decimal num_correct @ ''/'' @ decimal num_questions) w')
      | (Raise e, w') \<Rightarrow> (Raise e, w')
      | (Exit n, w') \<Rightarrow> (Exit n, w'))"

definition guess_car_brand :: "string \<Rightarrow> world \<Rightarrow> unit result \<times> world" where
  "guess_car_brand data_file0 w =
     (let dir_path = module_dir w;
          data_file = path_join dir_path ''model_codes_carscom.csv''
      in case (if \<not> path_exists data_file w then extract_maker_model_codes data_file w
               else (Return (), w)) of
           (Return _, w1) \<Rightarrow>
             (case map_of (files w1) data_file of
                None \<Rightarrow> (Raise FileNotFoundError, w1)
              | Some (Nested _) \<Rightarrow> (Raise Unsupported, w1)
              | Some (Table table) \<Rightarrow>
                  (case load_loop (DictReader table) [] [] of
                     Inl e \<Rightarrow> (Raise e, w1)
                   | Inr (brands, model_brand_pairs) \<Rightarrow> run_quiz brands model_brand_pairs w1))
         | (Raise e, w1) \<Rightarrow> (Raise e, w1)
         | (Exit n, w1) \<Rightarrow> (Exit n, w1))"

subsection \<open>Sessions\<close>

text \<open>
  The rounds of a session depend on the random module alone: for each of \<open>n\<close> rounds
  the model asked for, its brand, and the dictionary \<open>d\<close> of lettered choices. An
  answer is right in a round when its upper-cased form is a key of \<open>d\<close> mapped to the
  round's brand.
\<close>

type_synonym quiz_round = "cell \<times> cell \<times> (string \<times> cell) list"

fun session_rounds :: "nat \<Rightarrow> cell list \<Rightarrow> (cell \<times> cell) list \<Rightarrow> nat list
    \<Rightarrow> error + (quiz_round list \<times> nat list)" where
  "session_rounds 0 brands model_brand_pairs g = Inr ([], g)"
| "session_rounds (Suc n) brands model_brand_pairs g =
     (case random_choice model_brand_pairs g of
        Inl e \<Rightarrow> Inl e
      | Inr ((model, brand), g1) \<Rightarrow>
          (case offer_choices brands brand g1 of
             Inl e \<Rightarrow> Inl e
           | Inr (d, g2) \<Rightarrow>
               (case session_rounds n brands model_brand_pairs g2 of
                  Inl e \<Rightarrow> Inl e
                | Inr (rounds, g3) \<Rightarrow> Inr ((model, brand, d) # rounds, g3))))"

definition answered_correctly :: "quiz_round \<Rightarrow> string \<Rightarrow> bool" where
  "answered_correctly r answer = (case r of (model, brand, d) \<Rightarrow> map_of d (upper answer) = Some brand)"

text \<open>A line of input is accepted by the inner loop when \<open>line.upper() in letters\<close>.\<close>

definition accepted :: "string \<Rightarrow> bool" where
  "accepted line = contains letters (upper line)"

section \<open>Example worlds\<close>

definition demo_data :: "maker_entry list" where
  "demo_data = [Maker '' Honda '' ''20017'' [Model ''Accord'' ''20606'', Model '' - Civic  '' ''20608''],
                Maker ''Tesla'' ''28263'' [],
                Maker ''Ford'' ''20015'' [Model ''F-150'' ''21095'']]"

definition demo_world :: world where
  "demo_world = \<lparr>module_dir = ''/app'',
      files = [(''/app/cars_com_make_model.json'', Nested demo_data),
               (''/app/old.csv'', Table [[''stale'']]),
               (''/app/kept.csv'', Table [[''kept'']])],
      locked = [''/app/kept.csv''], stdout = [], stdin = [], rng = []\<rparr>"

definition blank_world :: world where
  "blank_world = \<lparr>module_dir = ''/app'',
      files = [(''/app/cars_com_make_model.json'',
                Nested [Maker ''Honda'' ''20017'' [Model ''Accord'' ''20606'', Model ''  '' ''0'']])],
      locked = [], stdout = [], stdin = [], rng = []\<rparr>"

definition store_table :: "string list list" where
  "store_table = [[''maker'', ''model'', ''maker code'', ''model code''],
                  [''Honda'', ''Accord'', ''1'', ''11''],
                  [''Ford'', ''Focus'', ''2'', ''21''],
                  [''Dodge'', ''Accord'', ''6'', ''61'']]"

definition quiz_brands :: "cell list" where
  "quiz_brands = [Some ''Honda'', Some ''Ford'', Some ''Kia'', Some ''BMW'', Some ''Audi'']"

definition quiz_pairs :: "(cell \<times> cell) list" where
  "quiz_pairs = [(Some ''Accord'', Some ''Honda''), (Some ''Focus'', Some ''Ford'')]"

definition quiz_world :: "string list \<Rightarrow> world" where
  "quiz_world lines = \<lparr>module_dir = ''/app'', files = [], locked = [], stdout = [],
                        stdin = lines, rng = []\<rparr>"

definition quiz_round_0 :: quiz_round where
  "quiz_round_0 = (Some ''Accord'', Some ''Honda'',
     [(''A'', Some ''Audi''), (''B'', Some ''BMW''), (''C'', Some ''Honda''), (''D'', Some ''Honda'')])"

text \<open>
  What a round of the example session prints when the answer is taken at the first
  prompt, up to the verdict.
\<close>

definition quiz_round_output :: "nat \<Rightarrow> string \<Rightarrow> string" where
  "quiz_round_output n verdict =
     decimal n @ ''. What is the brand of Accord? (choose one from A to D)'' @ [CHR 0x0A]
     @ ''A. Audi  B. BMW  C. Honda  D. Honda  '' @ [CHR 0x0A]
     @ ''> '' @ verdict @ [CHR 0x0A]"

definition wrong_verdict :: string where
  "wrong_verdict = ''wrong!'' @ [CHR 0x0A] @ ''Accord belongs to Honda!''"

definition small_store :: world where
  "small_store = \<lparr>module_dir = ''/app'',
      files = [(''/app/model_codes_carscom.csv'',
                Table [[''maker'', ''model'', ''maker code'', ''model code''],
                       [''Honda'', ''Accord'', ''20017'', ''20606''],
                       [''Ford'', ''Focus'', ''20015'', ''21095'']])],
      locked = [], stdout = [], stdin = [], rng = []\<rparr>"

definition two_files :: "string \<times> string" where
  "two_files = (''/tmp/other.csv'', ''model_codes_carscom.csv'')"

section \<open>Properties of extract_info_from_csvfilename\<close>

lemma split_no_sep: "c \<notin> set s \<Longrightarrow> split c s = [s]"
  by (induction s) auto

lemma split_append_sep: "c \<notin> set s \<Longrightarrow> split c (s @ c # t) = s # split c t"
  by (induction s) auto

lemma split_hyphenated:
  "segs \<noteq> [] \<Longrightarrow> \<forall>s\<in>set segs. CHR ''-'' \<notin> set s \<Longrightarrow>
     split CHR ''-'' (hyphenated segs) = segs"
  by (induction segs rule: hyphenated.induct) (simp_all add: split_no_sep split_append_sep)

lemma set_hyphenated: "set (hyphenated segs) \<subseteq> insert CHR ''-'' (\<Union>s\<in>set segs. set s)"
  by (induction segs rule: hyphenated.induct) auto

lemma rfind_last:
  assumes "c \<notin> set t"
  shows "rfind (s @ c # t) c = int (length s)"
proof -
  have "\<forall>x\<in>set (rev t). x \<noteq> c"
    using assms by auto
  then have "takeWhile (\<lambda>x. x \<noteq> c) (rev t @ c # rev s) = rev t"
    by (subst takeWhile_append2) auto
  then show ?thesis
    by (simp add: rfind_def)
qed

lemma slice_middle:
  "slice (xs @ ys @ zs) (int (length xs)) (int (length xs + length ys)) = ys"
  by (simp add: slice_def clip_index_def)

lemma base_name:
  assumes "CHR ''/'' \<notin> set base" "CHR ''/'' \<notin> set ext" "CHR ''.'' \<notin> set ext"
  shows "slice (dir @ ''/'' @ base @ ''.'' @ ext)
           (rfind (dir @ ''/'' @ base @ ''.'' @ ext) CHR ''/'' + 1)
           (rfind (dir @ ''/'' @ base @ ''.'' @ ext) CHR ''.'') = base"
proof -
  have a: "rfind (dir @ CHR ''/'' # (base @ ''.'' @ ext)) CHR ''/'' = int (length dir)"
    using assms by (intro rfind_last) auto
  have b: "rfind ((dir @ ''/'' @ base) @ CHR ''.'' # ext) CHR ''.''
             = int (length (dir @ ''/'' @ base))"
    using assms by (intro rfind_last) auto
  have "slice ((dir @ ''/'') @ base @ (''.'' @ ext)) (int (length (dir @ ''/'')))
          (int (length (dir @ ''/'') + length base)) = base"
    by (rule slice_middle)
  then show ?thesis
    using a b by (simp add: add.commute)
qed

text \<open>
  For a path \<open>dir/base.ext\<close> the directory and the extension are cut off and the first
  two and the last hyphen-delimited segments of \<open>base\<close> are returned in upper case, the
  segments between them ignored. A name without \<open>/\<close> is split as it is.
\<close>

lemma extract_info_from_csvfilename_segments:
  assumes segs: "\<forall>s\<in>set (maker # model # mids @ [cond]).
                   CHR ''-'' \<notin> set s \<and> CHR ''/'' \<notin> set s"
    and base: "base = hyphenated (maker # model # mids @ [cond])"
    and ext: "CHR ''.'' \<notin> set ext" "CHR ''/'' \<notin> set ext"
  shows "extract_info_from_csvfilename (dir @ ''/'' @ base @ ''.'' @ ext) =
           Inr [(''maker'', upper maker), (''model'', upper model), (''condition'', upper cond)]
       \<and> extract_info_from_csvfilename base =
           Inr [(''maker'', upper maker), (''model'', upper model), (''condition'', upper cond)]"
proof -
  have sp: "split CHR ''-'' base = maker # model # mids @ [cond]"
    unfolding base using segs by (intro split_hyphenated) auto
  have noslash: "CHR ''/'' \<notin> set base"
    using set_hyphenated[of "maker # model # mids @ [cond]"] segs unfolding base by auto
  have sl: "slice (dir @ ''/'' @ base @ ''.'' @ ext)
              (rfind (dir @ ''/'' @ base @ ''.'' @ ext) CHR ''/'' + 1)
              (rfind (dir @ ''/'' @ base @ ''.'' @ ext) CHR ''.'') = base"
    using noslash ext by (intro base_name) auto
  have 1: "extract_info_from_csvfilename base =
           Inr [(''maker'', upper maker), (''model'', upper model), (''condition'', upper cond)]"
    using noslash sp by (simp add: extract_info_from_csvfilename_def)
  have "CHR ''/'' \<in> set (dir @ ''/'' @ base @ ''.'' @ ext)"
    by simp
  then have 2: "extract_info_from_csvfilename (dir @ ''/'' @ base @ ''.'' @ ext) =
           Inr [(''maker'', upper maker), (''model'', upper model), (''condition'', upper cond)]"
    unfolding extract_info_from_csvfilename_def using sl sp
    by (simp del: append.simps append_assoc)
  from 1 2 show ?thesis
    by simp
qed

text \<open>The path \<open>./honda-accord-2019-used.csv\<close> gives the condition \<open>USED\<close>.\<close>

lemma extract_info_from_csvfilename_path:
  "extract_info_from_csvfilename ''./honda-accord-2019-used.csv'' =
     Inr [(''maker'', ''HONDA''), (''model'', ''ACCORD''), (''condition'', ''USED'')]
   \<and> extract_info_from_csvfilename ''honda-accord-2019-used'' =
     Inr [(''maker'', ''HONDA''), (''model'', ''ACCORD''), (''condition'', ''USED'')]"
  using extract_info_from_csvfilename_segments [of "''honda''" "''accord''" "[''2019'']"
      "''used''" "''honda-accord-2019-used''" "''csv''" "''.''"]
  by (simp add: upper_def upper_char_def ascii_lowercase_def ascii_uppercase_def)

text \<open>
  C2: the file name \<open>honda-accord-2019-used.csv\<close> should give the condition
  \<open>USED\<close>. The code gives \<open>USED.CSV\<close>: it cuts the extension off only inside the
  branch taken when the name contains \<open>/\<close>, so a file name without a directory
  keeps its extension in the last segment.
\<close>

theorem extract_info_bare_name_keeps_extension:
  "extract_info_from_csvfilename ''honda-accord-2019-used.csv'' =
     Inr [(''maker'', ''HONDA''), (''model'', ''ACCORD''), (''condition'', ''USED.CSV'')]
   \<and> extract_info_from_csvfilename ''honda-accord-2019-used.csv'' \<noteq>
     Inr [(''maker'', ''HONDA''), (''model'', ''ACCORD''), (''condition'', ''USED'')]"
  by (simp add: extract_info_from_csvfilename_def upper_def upper_char_def
      ascii_lowercase_def ascii_uppercase_def)

section \<open>Properties of extract_maker_model_codes and write_cars_to_csv\<close>

lemma hd_dropWhile_not: "dropWhile P xs \<noteq> [] \<Longrightarrow> \<not> P (hd (dropWhile P xs))"
  by (metis hd_dropWhile)

lemma strip_eq_trimmed: "strip s = trimmed s"
proof (cases "dropWhile isspace s = []")
  case True
  then have all: "\<forall>x\<in>set s. isspace x" by (metis dropWhile_eq_Nil_conv)
  then have a: "dropWhile isspace (rev s) = []" by (simp add: dropWhile_eq_Nil_conv)
  show ?thesis unfolding strip_def lstrip_def rstrip_def trimmed_def a True by simp
next
  case False
  define pre where "pre = takeWhile isspace s"
  define rest where "rest = dropWhile isspace s"
  have s: "s = pre @ rest" by (simp add: pre_def rest_def)
  have pre: "\<forall>x\<in>set pre. isspace x" unfolding pre_def by (metis set_takeWhileD)
  obtain x rest' where rest: "rest = x # rest'" using False unfolding rest_def by (cases "dropWhile isspace s") auto
  have nx: "\<not> isspace x" using hd_dropWhile_not[OF False] rest unfolding rest_def by simp
  have "x \<in> set (rev rest)" using rest by simp
  then have d1: "dropWhile isspace (rev rest @ rev pre) = dropWhile isspace (rev rest) @ rev pre"
    using nx by (intro dropWhile_append1) auto
  define R where "R = rev (dropWhile isspace (rev rest))"
  have "dropWhile isspace (rev rest' @ [x]) = dropWhile isspace (rev rest') @ [x]"
    using nx by (induction "rev rest'" arbitrary: rest') (auto simp: dropWhile_append)
  then have Rhd: "R = x # rev (dropWhile isspace (rev rest'))" unfolding R_def rest by simp
  have "strip s = dropWhile isspace (pre @ R)"
    unfolding strip_def lstrip_def rstrip_def s R_def using d1 by simp
  also have "\<dots> = dropWhile isspace R" using pre by (simp add: dropWhile_append2)
  also have "\<dots> = R" using Rhd nx by simp
  finally have "strip s = R" .
  moreover have "trimmed s = R" unfolding trimmed_def R_def rest_def by simp
  ultimately show ?thesis by simp
qed

lemma trimmed_last: "trimmed s \<noteq> [] \<Longrightarrow> \<not> isspace (last (trimmed s))"
  unfolding trimmed_def by (simp add: last_rev hd_dropWhile_not)

lemma rstrip_id: "s \<noteq> [] \<Longrightarrow> \<not> isspace (last s) \<Longrightarrow> rstrip s = s"
  unfolding rstrip_def by (cases s rule: rev_cases) auto

lemma strip_tail:
  assumes "trimmed s = c # cs"
  shows "strip cs = dropWhile isspace cs"
proof (cases "cs = []")
  case True then show ?thesis by (simp add: strip_def lstrip_def rstrip_def)
next
  case False
  have "\<not> isspace (last (trimmed s))" using assms by (intro trimmed_last) simp
  then have "\<not> isspace (last cs)" using assms False by simp
  then have "rstrip cs = cs" using False by (rule rstrip_id[rotated])
  then show ?thesis by (simp add: strip_def lstrip_def)
qed

lemma model_name_spec:
  assumes "strip display = c # cs"
  shows "(if c = CHR ''-'' then strip (drop 1 (c # cs)) else c # cs) = spec_model_name display"
  using assms strip_tail[of display c cs] by (simp add: spec_model_name_def strip_eq_trimmed)

lemma model_loop_rows:
  assumes "\<forall>m\<in>set models. strip (model_nm m) \<noteq> []"
    and "rest = [] \<or> (\<exists>n i. rest = [(''model'', n), (''model code'', i)])"
  shows "\<exists>rest'. (rest' = [] \<or> (\<exists>n i. rest' = [(''model'', n), (''model code'', i)])) \<and>
     model_loop models ((''maker'', a) # (''maker code'', b) # rest) csv_rows =
       Inr ((''maker'', a) # (''maker code'', b) # rest',
            csv_rows @ map (\<lambda>m. [(''maker'', a), (''maker code'', b),
                                   (''model'', spec_model_name (model_nm m)),
                                   (''model code'', model_id m)]) models)"
  using assms
proof (induction models arbitrary: rest csv_rows)
  case Nil
  then show ?case by auto
next
  case (Cons m models)
  then obtain c cs where st: "strip (model_nm m) = c # cs" by (cases "strip (model_nm m)") auto
  let ?n = "spec_model_name (model_nm m)"
  let ?rest1 = "[(''model'', ?n), (''model code'', model_id m)]"
  have upd: "AList.update ''model code'' (model_id m) (AList.update ''model'' ?n ((''maker'', a) # (''maker code'', b) # rest))
     = (''maker'', a) # (''maker code'', b) # ?rest1"
    using Cons.prems(2) by auto
  have "\<exists>rest'. (rest' = [] \<or> (\<exists>n i. rest' = [(''model'', n), (''model code'', i)])) \<and>
     model_loop models ((''maker'', a) # (''maker code'', b) # ?rest1) (csv_rows @ [(''maker'', a) # (''maker code'', b) # ?rest1]) =
       Inr ((''maker'', a) # (''maker code'', b) # rest',
            (csv_rows @ [(''maker'', a) # (''maker code'', b) # ?rest1]) @ map (\<lambda>m. [(''maker'', a), (''maker code'', b),
                                   (''model'', spec_model_name (model_nm m)),
                                   (''model code'', model_id m)]) models)"
    using Cons.prems(1) by (intro Cons.IH) auto
  moreover have "model_loop (m # models) ((''maker'', a) # (''maker code'', b) # rest) csv_rows
     = model_loop models ((''maker'', a) # (''maker code'', b) # ?rest1) (csv_rows @ [(''maker'', a) # (''maker code'', b) # ?rest1])"
    using st model_name_spec[OF st] upd by (simp add: Let_def del: AList.update.simps)
  ultimately show ?case by simp
qed

lemma maker_loop_rows:
  assumes "\<forall>maker\<in>set makers. \<forall>m\<in>set (maker_md maker). strip (model_nm m) \<noteq> []"
    and "car_dict = [] \<or> (\<exists>a b rest. car_dict = (''maker'', a) # (''maker code'', b) # rest \<and>
            (rest = [] \<or> (\<exists>n i. rest = [(''model'', n), (''model code'', i)])))"
  shows "\<exists>car_dict'. maker_loop makers car_dict csv_rows =
       Inr (car_dict',
            csv_rows @ concat (map (\<lambda>maker. map (\<lambda>m.
               [(''maker'', strip (maker_nm maker)), (''maker code'', maker_id maker),
                (''model'', spec_model_name (model_nm m)), (''model code'', model_id m)])
               (maker_md maker)) makers))"
  using assms
proof (induction makers arbitrary: car_dict csv_rows)
  case Nil
  then show ?case by simp
next
  case (Cons maker makers)
  let ?a = "strip (maker_nm maker)" and ?b = "maker_id maker"
  obtain rest where upd: "AList.update ''maker code'' ?b (AList.update ''maker'' ?a car_dict)
      = (''maker'', ?a) # (''maker code'', ?b) # rest"
    and rest: "rest = [] \<or> (\<exists>n i. rest = [(''model'', n), (''model code'', i)])"
    using Cons.prems(2) by auto
  have "\<forall>m\<in>set (maker_md maker). strip (model_nm m) \<noteq> []"
    using Cons.prems(1) by simp
  from model_loop_rows[OF this rest, of ?a ?b csv_rows]
  obtain rest' where rest': "rest' = [] \<or> (\<exists>n i. rest' = [(''model'', n), (''model code'', i)])"
    and ml: "model_loop (maker_md maker) ((''maker'', ?a) # (''maker code'', ?b) # rest) csv_rows =
       Inr ((''maker'', ?a) # (''maker code'', ?b) # rest',
            csv_rows @ map (\<lambda>m. [(''maker'', ?a), (''maker code'', ?b),
                                   (''model'', spec_model_name (model_nm m)),
                                   (''model code'', model_id m)]) (maker_md maker))"
    by blast
  have step: "maker_loop (maker # makers) car_dict csv_rows =
      maker_loop makers ((''maker'', ?a) # (''maker code'', ?b) # rest')
        (csv_rows @ map (\<lambda>m. [(''maker'', ?a), (''maker code'', ?b),
                                   (''model'', spec_model_name (model_nm m)),
                                   (''model code'', model_id m)]) (maker_md maker))"
    using upd ml by (simp add: Let_def del: AList.update.simps)
  have "\<exists>car_dict'. maker_loop makers ((''maker'', ?a) # (''maker code'', ?b) # rest')
        (csv_rows @ map (\<lambda>m. [(''maker'', ?a), (''maker code'', ?b),
                                   (''model'', spec_model_name (model_nm m)),
                                   (''model code'', model_id m)]) (maker_md maker)) =
       Inr (car_dict',
            (csv_rows @ map (\<lambda>m. [(''maker'', ?a), (''maker code'', ?b),
                                   (''model'', spec_model_name (model_nm m)),
                                   (''model code'', model_id m)]) (maker_md maker))
             @ concat (map (\<lambda>maker. map (\<lambda>m.
               [(''maker'', strip (maker_nm maker)), (''maker code'', maker_id maker),
                (''model'', spec_model_name (model_nm m)), (''model code'', model_id m)])
               (maker_md maker)) makers))"
    using Cons.prems(1) rest' by (intro Cons.IH) auto
  then show ?case using step by simp
qed

lemma model_loop_fails:
  assumes "\<exists>m\<in>set models. strip (model_nm m) = []"
  shows "model_loop models car_dict csv_rows = Inl IndexError"
  using assms
proof (induction models arbitrary: car_dict csv_rows)
  case Nil then show ?case by simp
next
  case (Cons m models)
  show ?case
  proof (cases "strip (model_nm m)")
    case Nil then show ?thesis by simp
  next
    case (Cons c cs)
    with Cons.prems Cons.IH show ?thesis by (simp add: Let_def del: AList.update.simps)
  qed
qed

lemma model_loop_error: "model_loop models car_dict csv_rows = Inl e \<Longrightarrow> e = IndexError"
  by (induction models arbitrary: car_dict csv_rows) (auto simp: Let_def split: list.splits simp del: AList.update.simps)

lemma maker_loop_fails:
  assumes "\<exists>maker\<in>set makers. \<exists>m\<in>set (maker_md maker). strip (model_nm m) = []"
  shows "maker_loop makers car_dict csv_rows = Inl IndexError"
  using assms
proof (induction makers arbitrary: car_dict csv_rows)
  case Nil then show ?case by simp
next
  case (Cons maker makers)
  show ?case
  proof (cases "\<exists>m\<in>set (maker_md maker). strip (model_nm m) = []")
    case True
    then show ?thesis by (simp add: Let_def model_loop_fails del: AList.update.simps)
  next
    case False
    with Cons.prems have "\<exists>maker\<in>set makers. \<exists>m\<in>set (maker_md maker). strip (model_nm m) = []" by auto
    then have "\<And>cd rows. maker_loop makers cd rows = Inl IndexError" by (rule Cons.IH)
    then show ?thesis
      by (auto simp: Let_def split: sum.splits dest: model_loop_error simp del: AList.update.simps)
  qed
qed

lemma writerows_all:
  "\<forall>r\<in>set rows. dict_to_list h r = Inr (f r) \<Longrightarrow>
     writerows h rows written = (Inr (), written @ map f rows)"
  by (induction rows arbitrary: written) auto

lemma dict_to_list_record:
  "dict_to_list csv_header [(''maker'', a), (''maker code'', b), (''model'', n), (''model code'', i)]
     = Inr [a, n, b, i]"
  by (simp add: dict_to_list_def csv_header_def)

lemma strip_empty_iff: "strip s = [] \<longleftrightarrow> (\<forall>c\<in>set s. isspace c)"
proof
  assume "strip s = []"
  then have "dropWhile isspace (rev (dropWhile isspace s)) = []"
    unfolding strip_eq_trimmed trimmed_def by simp
  then have a: "\<forall>c\<in>set (dropWhile isspace s). isspace c"
    by (simp add: dropWhile_eq_Nil_conv)
  show "\<forall>c\<in>set s. isspace c"
  proof (cases "dropWhile isspace s")
    case Nil then show ?thesis by (simp add: dropWhile_eq_Nil_conv)
  next
    case (Cons x xs)
    then have "\<not> isspace x" using hd_dropWhile_not[of isspace s] by simp
    with a Cons show ?thesis by simp
  qed
next
  assume "\<forall>c\<in>set s. isspace c"
  then have d: "dropWhile isspace s = []" by (simp add: dropWhile_eq_Nil_conv)
  show "strip s = []" unfolding strip_eq_trimmed trimmed_def d by simp
qed

lemma write_records:
  "writerows csv_header
     (map (\<lambda>(maker, m). [(''maker'', f maker), (''maker code'', maker_id maker),
                         (''model'', g m), (''model code'', model_id m)]) xs) written
   = (Inr (), written @ map (\<lambda>(maker, m). [f maker, g m, maker_id maker, model_id m]) xs)"
  by (induction xs arbitrary: written) (auto simp: dict_to_list_record)

lemma remove_previous_cases:
  "remove_previous csv_name w =
     (if path_exists csv_name w \<and> csv_name \<in> set (locked w)
      then (Exit 1, print (''error in deleting '' @ csv_name) w)
      else (Return (), if path_exists csv_name w
                       then print (''delete previous '' @ csv_name)
                              (w\<lparr>files := AList.delete csv_name (files w)\<rparr>)
                       else w))"
  by (simp add: remove_previous_def)

lemma concat_pairs:
  "concat (map (\<lambda>maker. map (\<lambda>m. F maker m) (maker_md maker)) data)
     = map (\<lambda>(maker, m). F maker m) (maker_model_pairs data)"
  by (induction data) (simp_all add: maker_model_pairs_def)

lemma length_maker_model_pairs:
  "length (maker_model_pairs data) = sum_list (map (\<lambda>maker. length (maker_md maker)) data)"
  by (induction data) (simp_all add: maker_model_pairs_def)

lemma extract_maker_model_codes_writes:
  assumes json: "map_of (files w) (path_join (module_dir w) ''cars_com_make_model.json'')
                   = Some (Nested data)"
    and names: "\<forall>maker\<in>set data. \<forall>m\<in>set (maker_md maker). strip (model_nm m) \<noteq> []"
  shows "extract_maker_model_codes csv_name w =
           write_cars_to_csv csv_name csv_header
             (map (\<lambda>(maker, m). [(''maker'', strip (maker_nm maker)), (''maker code'', maker_id maker),
                (''model'', spec_model_name (model_nm m)), (''model code'', model_id m)])
               (maker_model_pairs data)) w"
proof -
  from maker_loop_rows[OF names, of "[]" "[]"]
  obtain car_dict' where "maker_loop data [] [] =
       Inr (car_dict',
            concat (map (\<lambda>maker. map (\<lambda>m.
               [(''maker'', strip (maker_nm maker)), (''maker code'', maker_id maker),
                (''model'', spec_model_name (model_nm m)), (''model code'', model_id m)])
               (maker_md maker)) data))"
    by auto
  then show ?thesis
    using json by (simp add: extract_maker_model_codes_def concat_pairs)
qed

lemma write_cars_to_csv_records:
  assumes "\<not> (path_exists csv_name w \<and> csv_name \<in> set (locked w))"
  shows "\<exists>w'. write_cars_to_csv csv_name csv_header
             (map (\<lambda>(maker, m). [(''maker'', f maker), (''maker code'', maker_id maker),
                         (''model'', g m), (''model code'', model_id m)]) xs) w = (Return (), w')
         \<and> map_of (files w') csv_name =
             Some (Table (csv_header # map (\<lambda>(maker, m). [f maker, g m, maker_id maker, model_id m]) xs))"
  using assms
  by (auto simp: write_cars_to_csv_def remove_previous_cases write_records update_conv' print_def)

text \<open>
  C5: the builder writes, after the header, exactly one row per (maker, model) pair, as
  many as the lengths of the model lists add up to, in the order of the dataset, each row
  holding the maker's name, the model's name, the maker's code and the model's code.
\<close>

theorem extract_maker_model_codes_rows:
  assumes json: "map_of (files w) (path_join (module_dir w) ''cars_com_make_model.json'')
                   = Some (Nested data)"
    and names: "\<forall>maker\<in>set data. \<forall>m\<in>set (maker_md maker). strip (model_nm m) \<noteq> []"
    and removable: "\<not> (path_exists csv_name w \<and> csv_name \<in> set (locked w))"
  shows "\<exists>w' body. extract_maker_model_codes csv_name w = (Return (), w')
           \<and> map_of (files w') csv_name = Some (Table (csv_header # body))
           \<and> length body = sum_list (map (\<lambda>maker. length (maker_md maker)) data)
           \<and> body = map (\<lambda>(maker, model). [strip (maker_nm maker), spec_model_name (model_nm model),
                                             maker_id maker, model_id model])
                      (maker_model_pairs data)"
  using write_cars_to_csv_records[OF removable, of "\<lambda>maker. strip (maker_nm maker)"
      "\<lambda>m. spec_model_name (model_nm m)" "maker_model_pairs data"]
  unfolding extract_maker_model_codes_writes[OF json names]
  by (auto simp: length_maker_model_pairs)

text \<open>
  C4: when the builder writes the store, the maker column holds each maker's display name
  trimmed of surrounding whitespace, and the model column holds each model's display name
  trimmed and, when the trimmed name begins with a hyphen, without that hyphen and the
  whitespace following it (\<open>spec_model_name\<close>); a trimmed name that does not
  begin with a hyphen is written as it is.
\<close>

theorem extract_maker_model_codes_names:
  assumes json: "map_of (files w) (path_join (module_dir w) ''cars_com_make_model.json'')
                   = Some (Nested data)"
    and names: "\<forall>maker\<in>set data. \<forall>m\<in>set (maker_md maker). strip (model_nm m) \<noteq> []"
    and removable: "\<not> (path_exists csv_name w \<and> csv_name \<in> set (locked w))"
  shows "\<exists>w' body. extract_maker_model_codes csv_name w = (Return (), w')
           \<and> map_of (files w') csv_name = Some (Table (csv_header # body))
           \<and> map (\<lambda>row. (row ! 0, row ! 1)) body =
               map (\<lambda>(maker, model). (trimmed (maker_nm maker), spec_model_name (model_nm model)))
                 (maker_model_pairs data)"
  using write_cars_to_csv_records[OF removable, of "\<lambda>maker. strip (maker_nm maker)"
      "\<lambda>m. spec_model_name (model_nm m)" "maker_model_pairs data"]
  unfolding extract_maker_model_codes_writes[OF json names]
  by (auto simp: strip_eq_trimmed case_prod_unfold)

text \<open>C4 on a dataset with a padded maker name and a model name \<open>" - Civic  "\<close>.\<close>

theorem extract_maker_model_codes_names_witness:
  "\<exists>w' body. extract_maker_model_codes ''/app/new.csv'' demo_world = (Return (), w')
     \<and> map_of (files w') ''/app/new.csv'' = Some (Table (csv_header # body))
     \<and> map (\<lambda>row. (row ! 0, row ! 1)) body =
          [(''Honda'', ''Accord''), (''Honda'', ''Civic''), (''Ford'', ''F-150'')]"
proof -
  have json: "map_of (files demo_world) (path_join (module_dir demo_world) ''cars_com_make_model.json'')
                = Some (Nested demo_data)"
    by (simp add: demo_world_def path_join_def)
  have names: "\<forall>maker\<in>set demo_data. \<forall>m\<in>set (maker_md maker). strip (model_nm m) \<noteq> []"
    by (simp add: demo_data_def strip_def lstrip_def rstrip_def isspace_def whitespace_def)
  have removable: "\<not> (path_exists ''/app/new.csv'' demo_world \<and> ''/app/new.csv'' \<in> set (locked demo_world))"
    by (simp add: demo_world_def path_exists_def)
  have "map (\<lambda>(maker, model). (trimmed (maker_nm maker), spec_model_name (model_nm model)))
                 (maker_model_pairs demo_data) = [(''Honda'', ''Accord''), (''Honda'', ''Civic''), (''Ford'', ''F-150'')]"
    by (simp add: demo_data_def maker_model_pairs_def spec_model_name_def trimmed_def isspace_def whitespace_def)
  with extract_maker_model_codes_names[OF json names removable] show ?thesis
    by simp
qed

text \<open>C5 on a dataset of three makers, one of them without models.\<close>

theorem extract_maker_model_codes_rows_witness:
  "\<exists>w'. extract_maker_model_codes ''/app/old.csv'' demo_world = (Return (), w')
     \<and> map_of (files w') ''/app/old.csv'' =
         Some (Table [[''maker'', ''model'', ''maker code'', ''model code''],
                      [''Honda'', ''Accord'', ''20017'', ''20606''],
                      [''Honda'', ''Civic'', ''20017'', ''20608''],
                      [''Ford'', ''F-150'', ''20015'', ''21095'']])"
proof -
  have json: "map_of (files demo_world) (path_join (module_dir demo_world) ''cars_com_make_model.json'')
                = Some (Nested demo_data)"
    by (simp add: demo_world_def path_join_def)
  have names: "\<forall>maker\<in>set demo_data. \<forall>m\<in>set (maker_md maker). strip (model_nm m) \<noteq> []"
    by (simp add: demo_data_def strip_def lstrip_def rstrip_def isspace_def whitespace_def)
  have removable: "\<not> (path_exists ''/app/old.csv'' demo_world \<and> ''/app/old.csv'' \<in> set (locked demo_world))"
    by (simp add: demo_world_def path_exists_def)
  have "map (\<lambda>(maker, model). [strip (maker_nm maker), spec_model_name (model_nm model),
                                             maker_id maker, model_id model])
                 (maker_model_pairs demo_data) = [[''Honda'', ''Accord'', ''20017'', ''20606''],
                      [''Honda'', ''Civic'', ''20017'', ''20608''],
                      [''Ford'', ''F-150'', ''20015'', ''21095'']]"
    by (simp add: demo_data_def maker_model_pairs_def spec_model_name_def trimmed_def
        strip_def lstrip_def rstrip_def isspace_def whitespace_def)
  with extract_maker_model_codes_rows[OF json names removable] show ?thesis
    by (auto simp: csv_header_def)
qed

lemma write_cars_to_csv_records_result:
  "fst (write_cars_to_csv csv_name csv_header
             (map (\<lambda>(maker, m). [(''maker'', f maker), (''maker code'', maker_id maker),
                         (''model'', g m), (''model code'', model_id m)]) xs) w)
    = (if path_exists csv_name w \<and> csv_name \<in> set (locked w) then Exit 1 else Return ())"
  by (simp add: write_cars_to_csv_def remove_previous_cases write_records)

text \<open>
  C10: a model whose display name is empty or consists of whitespace makes the builder
  fail with \<open>IndexError\<close> at \<open>model_name[0]\<close>, before anything is written; when
  every model name trims to a non-empty string the loops complete and the builder ends as
  \<open>write_cars_to_csv\<close> does, never with that error.
\<close>

theorem extract_maker_model_codes_index:
  assumes json: "map_of (files w) (path_join (module_dir w) ''cars_com_make_model.json'')
                   = Some (Nested data)"
  shows "((\<exists>maker\<in>set data. \<exists>m\<in>set (maker_md maker). \<forall>c\<in>set (model_nm m). isspace c)
            \<longrightarrow> extract_maker_model_codes csv_name w = (Raise IndexError, w))
       \<and> ((\<forall>maker\<in>set data. \<forall>m\<in>set (maker_md maker). strip (model_nm m) \<noteq> [])
            \<longrightarrow> (\<exists>car_dict csv_rows. maker_loop data [] [] = Inr (car_dict, csv_rows))
                \<and> fst (extract_maker_model_codes csv_name w) =
                    (if path_exists csv_name w \<and> csv_name \<in> set (locked w) then Exit 1
                     else Return ()))"
proof (intro conjI impI)
  assume "\<exists>maker\<in>set data. \<exists>m\<in>set (maker_md maker). \<forall>c\<in>set (model_nm m). isspace c"
  then have "\<exists>maker\<in>set data. \<exists>m\<in>set (maker_md maker). strip (model_nm m) = []"
    by (simp add: strip_empty_iff)
  then have "maker_loop data [] [] = Inl IndexError"
    by (rule maker_loop_fails)
  then show "extract_maker_model_codes csv_name w = (Raise IndexError, w)"
    using json by (simp add: extract_maker_model_codes_def)
next
  assume names: "\<forall>maker\<in>set data. \<forall>m\<in>set (maker_md maker). strip (model_nm m) \<noteq> []"
  from maker_loop_rows[OF names, of "[]" "[]"]
  show "\<exists>car_dict csv_rows. maker_loop data [] [] = Inr (car_dict, csv_rows)"
    by auto
  show "fst (extract_maker_model_codes csv_name w) =
          (if path_exists csv_name w \<and> csv_name \<in> set (locked w) then Exit 1 else Return ())"
    unfolding extract_maker_model_codes_writes[OF json names]
    by (rule write_cars_to_csv_records_result)
qed

text \<open>C10 on a dataset with a blank model name and on one without.\<close>

theorem extract_maker_model_codes_index_witness:
  "extract_maker_model_codes ''/app/new.csv'' blank_world = (Raise IndexError, blank_world)
   \<and> fst (extract_maker_model_codes ''/app/new.csv'' demo_world) = Return ()
   \<and> fst (extract_maker_model_codes ''/app/kept.csv'' demo_world) = Exit 1"
proof -
  have json: "map_of (files demo_world) (path_join (module_dir demo_world) ''cars_com_make_model.json'')
                = Some (Nested demo_data)"
    by (simp add: demo_world_def path_join_def)
  have names: "\<forall>maker\<in>set demo_data. \<forall>m\<in>set (maker_md maker). strip (model_nm m) \<noteq> []"
    by (simp add: demo_data_def strip_def lstrip_def rstrip_def isspace_def whitespace_def)
  have json': "map_of (files blank_world) (path_join (module_dir blank_world) ''cars_com_make_model.json'')
                = Some (Nested [Maker ''Honda'' ''20017'' [Model ''Accord'' ''20606'', Model ''  '' ''0'']])"
    by (simp add: blank_world_def path_join_def)
  have blank: "\<exists>maker\<in>set [Maker ''Honda'' ''20017'' [Model ''Accord'' ''20606'', Model ''  '' ''0'']].
       \<exists>m\<in>set (maker_md maker). \<forall>c\<in>set (model_nm m). isspace c"
    by (simp add: isspace_def whitespace_def)
  have 1: "extract_maker_model_codes ''/app/new.csv'' blank_world = (Raise IndexError, blank_world)"
    using extract_maker_model_codes_index[OF json', of "''/app/new.csv''"] blank by blast
  have 2: "fst (extract_maker_model_codes ''/app/new.csv'' demo_world) = Return ()"
    using extract_maker_model_codes_index[OF json, of "''/app/new.csv''"] names
    by (simp add: demo_world_def path_exists_def)
  have 3: "fst (extract_maker_model_codes ''/app/kept.csv'' demo_world) = Exit 1"
    using extract_maker_model_codes_index[OF json, of "''/app/kept.csv''"] names
    by (simp add: demo_world_def path_exists_def)
  from 1 2 3 show ?thesis by simp
qed

text \<open>
  C7: when the destination exists and its removal fails, \<open>write_cars_to_csv\<close> prints
  the error notice and exits with status 1, the files untouched; when the removal
  succeeds, the run is the run from the world in which the file is gone and the notice
  printed: the notice comes before anything else is printed and the destination ends up
  holding only the records written now.
\<close>

theorem write_cars_to_csv_existing:
  assumes "path_exists csv_name w"
  shows "(csv_name \<in> set (locked w) \<longrightarrow>
            write_cars_to_csv csv_name hdr rows w =
              (Exit 1, w\<lparr>stdout := stdout w @ ''error in deleting '' @ csv_name @ [CHR 0x0A]\<rparr>))
       \<and> (csv_name \<notin> set (locked w) \<longrightarrow>
            (\<exists>w1. w1 = w\<lparr>files := AList.delete csv_name (files w),
                          stdout := stdout w @ ''delete previous '' @ csv_name @ [CHR 0x0A]\<rparr>
                \<and> \<not> path_exists csv_name w1
                \<and> write_cars_to_csv csv_name hdr rows w = write_cars_to_csv csv_name hdr rows w1
                \<and> (\<exists>out. stdout (snd (write_cars_to_csv csv_name hdr rows w)) = stdout w1 @ out)
                \<and> map_of (files (snd (write_cars_to_csv csv_name hdr rows w))) csv_name =
                    Some (Table (snd (writerows hdr rows [hdr])))))"
proof (intro conjI impI)
  assume "csv_name \<in> set (locked w)"
  then show "write_cars_to_csv csv_name hdr rows w =
              (Exit 1, w\<lparr>stdout := stdout w @ ''error in deleting '' @ csv_name @ [CHR 0x0A]\<rparr>)"
    using assms by (simp add: write_cars_to_csv_def remove_previous_cases print_def)
next
  assume free: "csv_name \<notin> set (locked w)"
  define w1 where "w1 = w\<lparr>files := AList.delete csv_name (files w),
                          stdout := stdout w @ ''delete previous '' @ csv_name @ [CHR 0x0A]\<rparr>"
  have gone: "\<not> path_exists csv_name w1"
    by (simp add: w1_def path_exists_def delete_conv')
  have r: "remove_previous csv_name w = (Return (), w1)"
    using assms free by (simp add: remove_previous_cases print_def w1_def)
  have r1: "remove_previous csv_name w1 = (Return (), w1)"
    using gone by (simp add: remove_previous_cases)
  have eq: "write_cars_to_csv csv_name hdr rows w = write_cars_to_csv csv_name hdr rows w1"
    by (simp add: write_cars_to_csv_def r r1)
  have out: "\<exists>out. stdout (snd (write_cars_to_csv csv_name hdr rows w)) = stdout w1 @ out"
    by (cases "writerows hdr rows [hdr]")
       (auto simp: write_cars_to_csv_def r print_def split: sum.splits)
  have tab: "map_of (files (snd (write_cars_to_csv csv_name hdr rows w))) csv_name =
                    Some (Table (snd (writerows hdr rows [hdr])))"
    by (cases "writerows hdr rows [hdr]")
       (auto simp: write_cars_to_csv_def r print_def update_conv' split: sum.splits)
  show "\<exists>w1. w1 = w\<lparr>files := AList.delete csv_name (files w),
                          stdout := stdout w @ ''delete previous '' @ csv_name @ [CHR 0x0A]\<rparr>
                \<and> \<not> path_exists csv_name w1
                \<and> write_cars_to_csv csv_name hdr rows w = write_cars_to_csv csv_name hdr rows w1
                \<and> (\<exists>out. stdout (snd (write_cars_to_csv csv_name hdr rows w)) = stdout w1 @ out)
                \<and> map_of (files (snd (write_cars_to_csv csv_name hdr rows w))) csv_name =
                    Some (Table (snd (writerows hdr rows [hdr])))"
    using gone eq out tab unfolding w1_def by blast
qed

text \<open>C7 on a locked and on a removable destination.\<close>

theorem write_cars_to_csv_existing_witness:
  "write_cars_to_csv ''/app/kept.csv'' [''maker''] [[(''maker'', ''Honda'')]] demo_world =
     (Exit 1, demo_world\<lparr>stdout := ''error in deleting /app/kept.csv'' @ [CHR 0x0A]\<rparr>)
   \<and> map_of (files (snd (write_cars_to_csv ''/app/old.csv'' [''maker''] [[(''maker'', ''Honda'')]] demo_world)))
        ''/app/old.csv'' = Some (Table [[''maker''], [''Honda'']])
   \<and> stdout (snd (write_cars_to_csv ''/app/old.csv'' [''maker''] [[(''maker'', ''Honda'')]] demo_world)) =
        ''delete previous /app/old.csv'' @ [CHR 0x0A] @ ''Writing 1 cars information to /app/old.csv'' @ [CHR 0x0A]"
proof -
  have e1: "path_exists ''/app/kept.csv'' demo_world" and e2: "path_exists ''/app/old.csv'' demo_world"
    by (simp_all add: demo_world_def path_exists_def)
  have 1: "write_cars_to_csv ''/app/kept.csv'' [''maker''] [[(''maker'', ''Honda'')]] demo_world =
     (Exit 1, demo_world\<lparr>stdout := ''error in deleting /app/kept.csv'' @ [CHR 0x0A]\<rparr>)"
    using write_cars_to_csv_existing[OF e1, of "[''maker'']" "[[(''maker'', ''Honda'')]]"]
    by (simp add: demo_world_def)
  have free: "''/app/old.csv'' \<notin> set (locked demo_world)"
    by (simp add: demo_world_def)
  have wr: "snd (writerows [''maker''] [[(''maker'', ''Honda'')]] [[''maker'']]) = [[''maker''], [''Honda'']]"
    by (simp add: dict_to_list_def)
  from write_cars_to_csv_existing[OF e2, of "[''maker'']" "[[(''maker'', ''Honda'')]]"] free
  have "map_of (files (snd (write_cars_to_csv ''/app/old.csv'' [''maker''] [[(''maker'', ''Honda'')]] demo_world)))
        ''/app/old.csv'' = Some (Table (snd (writerows [''maker''] [[(''maker'', ''Honda'')]] [[''maker'']])))"
    by blast
  then have 2: "map_of (files (snd (write_cars_to_csv ''/app/old.csv'' [''maker''] [[(''maker'', ''Honda'')]] demo_world)))
        ''/app/old.csv'' = Some (Table [[''maker''], [''Honda'']])"
    unfolding wr .
  have 3: "stdout (snd (write_cars_to_csv ''/app/old.csv'' [''maker''] [[(''maker'', ''Honda'')]] demo_world)) =
        ''delete previous /app/old.csv'' @ [CHR 0x0A] @ ''Writing 1 cars information to /app/old.csv'' @ [CHR 0x0A]"
    by (simp add: write_cars_to_csv_def remove_previous_def demo_world_def path_exists_def print_def dict_to_list_def decimal.simps digits_def)
  from 1 2 3 show ?thesis by simp
qed

section \<open>Properties of guess_car_brand\<close>

text \<open>
  C9: \<open>guess_car_brand\<close> ignores its argument: the path is overwritten with the
  store beside the module before it is used, so two runs from the same world with
  different arguments give the same result and the same final world.
\<close>

theorem guess_car_brand_ignores_data_file:
  "guess_car_brand data_file1 w = guess_car_brand data_file2 w"
  by (simp add: guess_car_brand_def)

text \<open>C9 on a store of two makers, where both runs end in the same error.\<close>

theorem guess_car_brand_ignores_data_file_witness:
  "guess_car_brand (fst two_files) small_store = guess_car_brand (snd two_files) small_store
   \<and> fst two_files \<noteq> snd two_files"
  using guess_car_brand_ignores_data_file [of "fst two_files" small_store "snd two_files"]
  by (simp add: two_files_def)

lemma find_snoc:
  "find P (xs @ [x]) = (case find P xs of None \<Rightarrow> (if P x then Some x else None) | Some y \<Rightarrow> Some y)"
  by (induction xs) auto

lemma set_add_set: "set (set_add x xs) = insert x (set xs)"
  by (auto simp: set_add_def)

lemma set_add_distinct: "distinct xs \<Longrightarrow> distinct (set_add x xs)"
  by (simp add: set_add_def)

lemma load_loop_general:
  assumes "\<forall>line\<in>set lines. \<exists>maker model. map_of line ''maker'' = Some maker \<and> map_of line ''model'' = Some model"
  shows "\<exists>bs ps. load_loop lines brands pairs = Inr (bs, ps)
     \<and> set bs = set brands \<union> {maker. \<exists>line\<in>set lines. map_of line ''maker'' = Some maker}
     \<and> (distinct brands \<longrightarrow> distinct bs)
     \<and> (distinct (map fst pairs) \<longrightarrow> distinct (map fst ps))
     \<and> (\<forall>model. map_of ps model =
           (case find (\<lambda>line. map_of line ''model'' = Some model) (rev lines) of
              None \<Rightarrow> map_of pairs model | Some line \<Rightarrow> map_of line ''maker''))"
  using assms
proof (induction lines arbitrary: brands pairs)
  case Nil
  then show ?case by simp
next
  case (Cons line lines)
  then obtain maker model where mk: "map_of line ''maker'' = Some maker" and md: "map_of line ''model'' = Some model"
    by auto
  have rest: "\<forall>line\<in>set lines. \<exists>maker model. map_of line ''maker'' = Some maker \<and> map_of line ''model'' = Some model"
    using Cons.prems by simp
  from Cons.IH[OF rest, of "set_add maker brands" "AList.update model maker pairs"]
  obtain bs ps where r: "load_loop lines (set_add maker brands) (AList.update model maker pairs) = Inr (bs, ps)"
    and b: "set bs = set (set_add maker brands) \<union> {maker. \<exists>line\<in>set lines. map_of line ''maker'' = Some maker}"
    and d: "distinct (set_add maker brands) \<longrightarrow> distinct bs"
    and k: "distinct (map fst (AList.update model maker pairs)) \<longrightarrow> distinct (map fst ps)"
    and m: "\<forall>model'. map_of ps model' =
           (case find (\<lambda>line. map_of line ''model'' = Some model') (rev lines) of
              None \<Rightarrow> map_of (AList.update model maker pairs) model' | Some line \<Rightarrow> map_of line ''maker'')"
    by blast
  have "load_loop (line # lines) brands pairs = Inr (bs, ps)"
    using mk md r by simp
  moreover have "set bs = set brands \<union> {maker. \<exists>l\<in>set (line # lines). map_of l ''maker'' = Some maker}"
    using b mk by (auto simp: set_add_set)
  moreover have "distinct brands \<longrightarrow> distinct bs"
    using d by (simp add: set_add_distinct)
  moreover have "distinct (map fst pairs) \<longrightarrow> distinct (map fst ps)"
    using k by (simp add: distinct_update)
  moreover have "\<forall>model'. map_of ps model' =
           (case find (\<lambda>l. map_of l ''model'' = Some model') (rev (line # lines)) of
              None \<Rightarrow> map_of pairs model' | Some l \<Rightarrow> map_of l ''maker'')"
    using m mk md by (auto simp: find_snoc update_conv' split: option.splits)
  ultimately show ?case by blast
qed

text \<open>
  C6: for every sequence of rows that carry the keys \<open>maker\<close> and \<open>model\<close>, the
  loading loop returns; \<open>brands\<close> holds exactly the maker names of the rows, each
  once, and \<open>model_brand_pairs\<close> maps a model name to the maker of the last row
  bearing that model name (and to nothing when no row bears it).
\<close>

theorem load_loop_index:
  assumes "\<forall>line\<in>set lines. \<exists>maker model.
             map_of line ''maker'' = Some maker \<and> map_of line ''model'' = Some model"
  shows "\<exists>brands model_brand_pairs.
           load_loop lines [] [] = Inr (brands, model_brand_pairs)
         \<and> distinct brands
         \<and> set brands = {maker. \<exists>line\<in>set lines. map_of line ''maker'' = Some maker}
         \<and> distinct (map fst model_brand_pairs)
         \<and> (\<forall>model. map_of model_brand_pairs model =
               (case find (\<lambda>line. map_of line ''model'' = Some model) (rev lines) of
                  None \<Rightarrow> None
                | Some line \<Rightarrow> map_of line ''maker''))"
proof -
  from load_loop_general[OF assms, of "[]" "[]"] obtain bs ps where
    "load_loop lines [] [] = Inr (bs, ps)"
    "set bs = {maker. \<exists>line\<in>set lines. map_of line ''maker'' = Some maker}"
    "distinct bs" "distinct (map fst ps)"
    "\<forall>model. map_of ps model =
        (case find (\<lambda>line. map_of line ''model'' = Some model) (rev lines) of
           None \<Rightarrow> None | Some line \<Rightarrow> map_of line ''maker'')"
    by (auto cong: option.case_cong)
  then show ?thesis
    by blast
qed

lemma foldl_update_dom:
  "dom (map_of (foldl (\<lambda>d (k, v). AList.update k v d) d0 zs)) = dom (map_of d0) \<union> fst ` set zs"
  by (induction zs arbitrary: d0) (auto simp: update_conv')

lemma dict_of_row_keys:
  assumes "k \<in> set fieldnames"
  shows "\<exists>v. map_of (dict_of_row fieldnames row) k = Some v"
proof -
  have "map fst (zip fieldnames (map Some row @ replicate (length fieldnames - length row) None)) = fieldnames"
    by (simp add: map_fst_zip_take)
  then have "fst ` set (zip fieldnames (map Some row @ replicate (length fieldnames - length row) None)) = set fieldnames"
    by (metis set_map)
  then have "k \<in> dom (map_of (dict_of_row fieldnames row))"
    using assms unfolding dict_of_row_def foldl_update_dom by simp
  then show ?thesis by blast
qed

lemma DictReader_keys:
  assumes "''maker'' \<in> set fieldnames" "''model'' \<in> set fieldnames"
  shows "\<forall>line\<in>set (DictReader (fieldnames # records)). \<exists>maker model.
             map_of line ''maker'' = Some maker \<and> map_of line ''model'' = Some model"
  using assms by (auto simp: DictReader_def dict_of_row_keys)

text \<open>C6 on a store in which two makers share the model name \<open>Accord\<close>.\<close>

theorem load_loop_index_witness:
  "\<exists>brands model_brand_pairs.
      load_loop (DictReader store_table) [] [] = Inr (brands, model_brand_pairs)
    \<and> set brands = {Some ''Honda'', Some ''Ford'', Some ''Dodge''}
    \<and> map_of model_brand_pairs (Some ''Accord'') = Some (Some ''Dodge'')"
proof -
  have keys: "\<forall>line\<in>set (DictReader store_table). \<exists>maker model.
             map_of line ''maker'' = Some maker \<and> map_of line ''model'' = Some model"
    unfolding store_table_def by (intro DictReader_keys) simp_all
  have lines: "DictReader store_table =
      [[(''maker'', Some ''Honda''), (''model'', Some ''Accord''), (''maker code'', Some ''1''), (''model code'', Some ''11'')],
       [(''maker'', Some ''Ford''), (''model'', Some ''Focus''), (''maker code'', Some ''2''), (''model code'', Some ''21'')],
       [(''maker'', Some ''Dodge''), (''model'', Some ''Accord''), (''maker code'', Some ''6''), (''model code'', Some ''61'')]]"
    by (simp add: store_table_def DictReader_def dict_of_row_def)
  from load_loop_index[OF keys] obtain brands model_brand_pairs where
    r: "load_loop (DictReader store_table) [] [] = Inr (brands, model_brand_pairs)"
    and b: "set brands = {maker. \<exists>line\<in>set (DictReader store_table). map_of line ''maker'' = Some maker}"
    and m: "\<forall>model. map_of model_brand_pairs model =
               (case find (\<lambda>line. map_of line ''model'' = Some model) (rev (DictReader store_table)) of
                  None \<Rightarrow> None
                | Some line \<Rightarrow> map_of line ''maker'')"
    by blast
  have "set brands = {Some ''Honda'', Some ''Ford'', Some ''Dodge''}"
    unfolding b lines by auto
  moreover have "map_of model_brand_pairs (Some ''Accord'') = Some (Some ''Dodge'')"
    using m unfolding lines by simp
  ultimately show ?thesis using r by blast
qed

lemma randbelow_less: "0 < n \<Longrightarrow> fst (randbelow n g) < n"
  by (cases g) (simp_all add: randbelow_def)

lemma mset_pool_step:
  assumes "j < length pool"
  shows "mset (butlast (pool[j := last pool])) = mset pool - {#pool ! j#}"
proof -
  let ?X = "pool[j := last pool]"
  have ne: "?X \<noteq> []" using assms by auto
  have pne: "pool \<noteq> []" using assms by auto
  have "last ?X = ?X ! (length ?X - 1)" using ne by (rule last_conv_nth)
  also have "\<dots> = pool ! (length pool - 1)"
    using assms by (cases "j = length pool - 1") (simp_all add: last_conv_nth[OF pne])
  finally have lastX: "last ?X = last pool" by (simp add: last_conv_nth[OF pne])
  have "mset ?X = add_mset (last pool) (mset pool - {#pool ! j#})"
    using assms by (simp add: mset_update)
  moreover have "mset ?X = add_mset (last ?X) (mset (butlast ?X))"
    using ne by (metis append_butlast_last_id mset.simps(2) mset_append add_mset_add_single union_mset_add_mset_right add.right_neutral mset.simps(1))
  ultimately show ?thesis using lastX by (metis add_mset_remove_trivial)
qed

lemma sample_pool_props:
  "k \<le> length pool \<Longrightarrow>
     length (fst (sample_pool pool k g)) = k \<and> mset (fst (sample_pool pool k g)) \<subseteq># mset pool"
proof (induction k arbitrary: pool g)
  case 0
  then show ?case by simp
next
  case (Suc k)
  obtain j g1 where rb: "randbelow (length pool) g = (j, g1)" by (cases "randbelow (length pool) g")
  have "0 < length pool" using Suc.prems by (cases pool) simp_all
  from randbelow_less[OF this, of g] have j: "j < length pool" using rb by simp
  let ?pool' = "butlast (pool[j := last pool])"
  obtain res g2 where sp: "sample_pool ?pool' k g1 = (res, g2)" by (cases "sample_pool ?pool' k g1")
  have "k \<le> length ?pool'" using Suc.prems by simp
  from Suc.IH[OF this, of g1] sp have len: "length res = k" and sub: "mset res \<subseteq># mset pool - {#pool ! j#}"
    by (simp_all add: mset_pool_step[OF j])
  have "pool ! j \<in># mset pool" using j by simp
  with sub have "add_mset (pool ! j) (mset res) \<subseteq># mset pool"
    by (metis insert_DiffM mset_subset_eq_add_mset_cancel)
  then show ?case using rb sp len by simp
qed

lemma distinct_submset:
  assumes "mset xs \<subseteq># mset ys" "distinct ys"
  shows "distinct xs"
proof -
  have "\<forall>a. count (mset xs) a \<le> 1"
  proof
    fix a
    have "count (mset xs) a \<le> count (mset ys) a" using assms(1) by (simp add: mset_subset_eq_count)
    also have "\<dots> \<le> 1" using assms(2) by (metis distinct_count_atmost_1 le_numeral_extra(4) zero_le_one)
    finally show "count (mset xs) a \<le> 1" .
  qed
  then show ?thesis by (metis distinct_count_atmost_1 le_antisym  count_inI count_greater_zero_iff linorder_not_less less_one set_mset_mset  le_zero_eq not_one_le_zero)
qed

lemma random_sample_props:
  assumes "random_sample population k g = Inr (sampled, g')"
  shows "length sampled = k \<and> mset sampled \<subseteq># mset population \<and> set sampled \<subseteq> set population
       \<and> (distinct population \<longrightarrow> distinct sampled)"
proof -
  from assms have k: "k \<le> length population" and s: "sampled = fst (sample_pool population k g)"
    by (auto simp: random_sample_def split: if_splits)
  from sample_pool_props[OF k, of g] s have len: "length sampled = k" and sub: "mset sampled \<subseteq># mset population"
    by simp_all
  from sub have "set sampled \<subseteq> set population" by (metis set_mset_mono set_mset_mset)
  with len sub distinct_submset[OF sub] show ?thesis by blast
qed

lemma shuffle_loop_mset:
  "i < length x \<Longrightarrow> mset (fst (shuffle_loop i x g)) = mset x"
proof (induction i arbitrary: x g)
  case 0
  then show ?case by simp
next
  case (Suc i)
  obtain j g1 where rb: "randbelow (Suc i + 1) g = (j, g1)" by (cases "randbelow (Suc i + 1) g")
  have "fst (randbelow (Suc i + 1) g) < Suc i + 1" by (intro randbelow_less) simp
  then have j: "j < length x" using rb Suc.prems by simp
  let ?x' = "x[Suc i := x ! j, j := x ! Suc i]"
  have "mset ?x' = mset x" using j Suc.prems by (simp add: mset_swap)
  moreover have "mset (fst (shuffle_loop i ?x' g1)) = mset ?x'"
    using Suc.prems by (intro Suc.IH) simp
  ultimately show ?case using rb by simp
qed

lemma random_shuffle_mset: "mset (fst (random_shuffle x g)) = mset x"
proof (cases x)
  case Nil then show ?thesis by (simp add: random_shuffle_def)
next
  case (Cons a list)
  then show ?thesis unfolding random_shuffle_def by (intro shuffle_loop_mset) simp
qed

lemma letters_keys: "map (\<lambda>c. [c]) letters = [''A'', ''B'', ''C'', ''D'']"
  by (simp add: letters_def num_choices_def ascii_uppercase_def)

lemma offer_choices_Inr:
  assumes "offer_choices brands brand g = Inr (d, g')"
  shows "\<exists>sampled g1 choices. random_sample brands (num_choices - 1) g = Inr (sampled, g1)
           \<and> random_shuffle (sampled @ [brand]) g1 = (choices, g')
           \<and> d = zip [''A'', ''B'', ''C'', ''D''] choices"
  using assms
  by (auto simp: offer_choices_def letters_keys Let_def split: sum.splits prod.splits)

text \<open>
  C1, amended: in a round the three sampled names are pairwise distinct members of
  \<open>brands\<close>, the four lettered options are a rearrangement of the sample followed by
  the correct brand, and the options are free of duplicates exactly when the sample does
  not contain the correct brand.
\<close>

theorem offer_choices_sample:
  assumes "distinct brands" and "offer_choices brands brand g = Inr (d, g')"
  shows "\<exists>sampled g1. random_sample brands (num_choices - 1) g = Inr (sampled, g1)
         \<and> length sampled = 3 \<and> distinct sampled \<and> set sampled \<subseteq> set brands
         \<and> map fst d = [''A'', ''B'', ''C'', ''D'']
         \<and> mset (map snd d) = mset (sampled @ [brand])
         \<and> (distinct (map snd d) \<longleftrightarrow> brand \<notin> set sampled)"
proof -
  from offer_choices_Inr[OF assms(2)] obtain sampled g1 choices where
    s: "random_sample brands (num_choices - 1) g = Inr (sampled, g1)"
    and sh: "random_shuffle (sampled @ [brand]) g1 = (choices, g')"
    and d: "d = zip [''A'', ''B'', ''C'', ''D''] choices"
    by blast
  from random_sample_props[OF s] assms(1)
  have len: "length sampled = 3" and dist: "distinct sampled" and sub: "set sampled \<subseteq> set brands"
    by (simp_all add: num_choices_def)
  have ms: "mset choices = mset (sampled @ [brand])"
    using random_shuffle_mset[of "sampled @ [brand]" g1] sh by simp
  then have "length choices = length (sampled @ [brand])"
    by (rule mset_eq_length)
  then have l4: "length choices = 4" using len by simp
  then have fst_d: "map fst d = [''A'', ''B'', ''C'', ''D'']" and snd_d: "map snd d = choices"
    unfolding d by simp_all
  have "distinct choices \<longleftrightarrow> distinct (sampled @ [brand])"
    using ms by (rule mset_eq_imp_distinct_iff)
  then have "distinct (map snd d) \<longleftrightarrow> brand \<notin> set sampled"
    using dist snd_d by simp
  with s len dist sub fst_d ms snd_d show ?thesis by simp
qed

text \<open>C1, amended, on a round whose sample misses the correct brand.\<close>

theorem offer_choices_sample_witness:
  "\<exists>sampled g1. random_sample [Some ''A'', Some ''B'', Some ''C'', Some ''D'', Some ''E''] (num_choices - 1) [1, 2, 0] = Inr (sampled, g1)
     \<and> length sampled = 3 \<and> distinct sampled
     \<and> mset [Some ''C'', Some ''A'', Some ''E'', Some ''B''] = mset (sampled @ [Some ''E''])
     \<and> Some ''E'' \<notin> set sampled"
proof -
  have a: "distinct [Some ''A'', Some ''B'', Some ''C'', Some ''D'', Some ''E'']" by simp
  have b: "offer_choices [Some ''A'', Some ''B'', Some ''C'', Some ''D'', Some ''E''] (Some ''E'') [1, 2, 0]
     = Inr ([(''A'', Some ''C''), (''B'', Some ''A''), (''C'', Some ''E''), (''D'', Some ''B'')], [])"
    by code_simp
  from offer_choices_sample[OF a b] show ?thesis by auto
qed

text \<open>
  C1, as the specification states it, fails: with the brands \<open>A\<close> to \<open>E\<close> and the
  draws all zero the round asks for a model of brand \<open>A\<close>, the sample is
  \<open>A, E, D\<close>, and the options hold \<open>A\<close> twice.
\<close>

theorem offer_choices_duplicate_counterexample:
  "random_choice [(Some ''a1'', Some ''A''), (Some ''b1'', Some ''B'')] [] = Inr ((Some ''a1'', Some ''A''), [])
   \<and> random_sample [Some ''A'', Some ''B'', Some ''C'', Some ''D'', Some ''E''] (num_choices - 1) []
        = Inr ([Some ''A'', Some ''E'', Some ''D''], [])
   \<and> Some ''A'' \<in> set [Some ''A'', Some ''E'', Some ''D'']
   \<and> offer_choices [Some ''A'', Some ''B'', Some ''C'', Some ''D'', Some ''E''] (Some ''A'') []
        = Inr ([(''A'', Some ''E''), (''B'', Some ''D''), (''C'', Some ''A''), (''D'', Some ''A'')], [])
   \<and> \<not> distinct (map snd [(''A'', Some ''E''), (''B'', Some ''D''), (''C'', Some ''A''), (''D'', Some ''A'')])"
  by code_simp

lemma input_loop_turn:
  assumes "\<forall>line\<in>set junk. \<not> accepted line" "accepted answer"
  shows "\<exists>out'. input_loop (junk @ answer # rest) out = (Inr (upper answer), rest, out @ out')"
  using assms
proof (induction junk arbitrary: out)
  case Nil
  then show ?case by (simp add: accepted_def)
next
  case (Cons line junk)
  then obtain out' where
    "input_loop (junk @ answer # rest) (out @ ''> '' @ ''please pick a valid choice'' @ [CHR 0x0A])
       = (Inr (upper answer), rest, (out @ ''> '' @ ''please pick a valid choice'' @ [CHR 0x0A]) @ out')"
    by (metis list.set_intros(2))
  moreover have "\<not> contains letters (upper line)"
    using Cons.prems by (simp add: accepted_def)
  ultimately show ?case
    by (simp add: Let_def)
qed

lemma pick_valid_choice_turn:
  assumes "\<forall>line\<in>set junk. \<not> accepted line" "accepted answer" "stdin w = junk @ answer # rest"
  shows "\<exists>out'. pick_valid_choice w = (Return (upper answer), w\<lparr>stdin := rest, stdout := stdout w @ out'\<rparr>)"
proof -
  from input_loop_turn[OF assms(1,2), of rest "stdout w"] obtain out' where
    "input_loop (junk @ answer # rest) (stdout w) = (Inr (upper answer), rest, stdout w @ out')"
    by blast
  then have "pick_valid_choice w = (Return (upper answer), w\<lparr>stdin := rest, stdout := stdout w @ out'\<rparr>)"
    using assms(3) by (simp add: pick_valid_choice_def)
  then show ?thesis
    by (rule exI)
qed

text \<open>
  Every rejected line costs one prompt and one \<open>please pick a valid choice\<close>, and
  nothing else: the loop leaves at the first accepted line.
\<close>

lemma input_loop_reprompts:
  assumes "\<forall>line\<in>set junk. \<not> accepted line" "accepted answer"
  shows "input_loop (junk @ answer # rest) out =
           (Inr (upper answer), rest,
            out @ concat (map (\<lambda>line. ''> '' @ ''please pick a valid choice'' @ [CHR 0x0A]) junk)
              @ ''> '')"
  using assms
proof (induction junk arbitrary: out)
  case Nil
  then show ?case
    by (simp add: accepted_def)
next
  case (Cons line junk)
  then have "\<not> contains letters (upper line)"
    by (simp add: accepted_def)
  moreover have "input_loop (junk @ answer # rest)
                   (out @ ''> '' @ ''please pick a valid choice'' @ [CHR 0x0A]) =
           (Inr (upper answer), rest,
            (out @ ''> '' @ ''please pick a valid choice'' @ [CHR 0x0A])
              @ concat (map (\<lambda>line. ''> '' @ ''please pick a valid choice'' @ [CHR 0x0A]) junk)
              @ ''> '')"
    using Cons.prems by (intro Cons.IH) simp_all
  ultimately show ?case
    by (simp add: Let_def)
qed

lemma foldl_print_noend:
  "foldl (\<lambda>w (letter, choice). print_noend (f letter choice) w) w0 d
     = w0\<lparr>stdout := stdout w0 @ concat (map (\<lambda>(letter, choice). f letter choice) d)\<rparr>"
  by (induction d arbitrary: w0) (auto simp: print_noend_def)

lemma ask_question_turn:
  assumes rc: "random_choice pairs (rng w) = Inr ((model, brand), g1)"
    and oc: "offer_choices brands brand g1 = Inr (d, g2)"
    and junk: "\<forall>line\<in>set junk. \<not> accepted line" and ans: "accepted answer"
    and inp: "stdin w = junk @ answer # rest"
  shows "\<exists>out. ask_question brands pairs qn nc w =
           (Return (if answered_correctly (model, brand, d) answer then nc + 1 else nc),
            w\<lparr>rng := g2, stdin := rest, stdout := stdout w @ out\<rparr>)"
proof -
  define w1 where "w1 = print (decimal qn @ ''. What is the brand of '' @ str_of model
                      @ ''? (choose one from '' @ [hd letters] @ '' to '' @ [last letters] @ '')'')
                      (w\<lparr>rng := g1\<rparr>)"
  define w3 where "w3 = print [] (foldl (\<lambda>w (letter, choice).
                                     print_noend (letter @ ''. '' @ str_of choice @ ''  '') w)
                              (w1\<lparr>rng := g2\<rparr>) d)"
  obtain o3 where w3: "w3 = w\<lparr>rng := g2, stdout := stdout w @ o3\<rparr>"
    unfolding w3_def w1_def foldl_print_noend by (simp add: print_def)
  then have "stdin w3 = junk @ answer # rest" using inp by simp
  from pick_valid_choice_turn[OF junk ans this] obtain o4 where
    p: "pick_valid_choice w3 = (Return (upper answer), w3\<lparr>stdin := rest, stdout := stdout w3 @ o4\<rparr>)"
    by blast
  have rng1: "rng w1 = g1"
    by (simp add: w1_def print_def)
  have aq: "ask_question brands pairs qn nc w =
      (if map_of d (upper answer) = Some brand
       then (Return (nc + 1), print ''correct!'' (w3\<lparr>stdin := rest, stdout := stdout w3 @ o4\<rparr>))
       else (Return nc, print (str_of model @ '' belongs to '' @ str_of brand @ ''!'')
                          (print ''wrong!'' (w3\<lparr>stdin := rest, stdout := stdout w3 @ o4\<rparr>))))"
    unfolding ask_question_def rc Let_def sum.case prod.case w1_def[symmetric] rng1 oc
      w3_def[symmetric] p result.case
    by (rule refl)
  show ?thesis
  proof (cases "map_of d (upper answer) = Some brand")
    case True
    then have "ask_question brands pairs qn nc w =
           (Return (if answered_correctly (model, brand, d) answer then nc + 1 else nc),
            w\<lparr>rng := g2, stdin := rest, stdout := stdout w @ (o3 @ o4 @ ''correct!'' @ [CHR 0x0A])\<rparr>)"
      unfolding aq w3 by (simp add: answered_correctly_def print_def)
    then show ?thesis
      by (rule exI)
  next
    case False
    then have "ask_question brands pairs qn nc w =
           (Return (if answered_correctly (model, brand, d) answer then nc + 1 else nc),
            w\<lparr>rng := g2, stdin := rest, stdout := stdout w @ (o3 @ o4 @ ''wrong!'' @ [CHR 0x0A]
               @ (str_of model @ '' belongs to '' @ str_of brand @ ''!'') @ [CHR 0x0A])\<rparr>)"
      unfolding aq w3 by (simp add: answered_correctly_def print_def)
    then show ?thesis
      by (rule exI)
  qed
qed

lemma question_loop_turns:
  assumes "session_rounds n brands pairs (rng w) = Inr (rounds, g')"
    and "length turns = n"
    and "\<forall>(junk, answer)\<in>set turns. (\<forall>line\<in>set junk. \<not> accepted line) \<and> accepted answer"
    and "stdin w = concat (map (\<lambda>(junk, answer). junk @ [answer]) turns) @ rest"
  shows "\<exists>out. question_loop n qn nc brands pairs w =
           (Return (nc + length (filter (\<lambda>(r, t). answered_correctly r (snd t)) (zip rounds turns))),
            w\<lparr>rng := g', stdin := rest, stdout := stdout w @ out\<rparr>)
         \<and> length rounds = n"
  using assms
proof (induction n arbitrary: qn nc w rounds turns)
  case 0
  then have "question_loop 0 qn nc brands pairs w =
           (Return (nc + length (filter (\<lambda>(r, t). answered_correctly r (snd t)) (zip rounds turns))),
            w\<lparr>rng := g', stdin := rest, stdout := stdout w @ []\<rparr>)"
    by auto
  moreover have "length rounds = 0"
    using 0 by auto
  ultimately have "question_loop 0 qn nc brands pairs w =
           (Return (nc + length (filter (\<lambda>(r, t). answered_correctly r (snd t)) (zip rounds turns))),
            w\<lparr>rng := g', stdin := rest, stdout := stdout w @ []\<rparr>) \<and> length rounds = 0"
    by (rule conjI)
  then show ?case
    by (rule exI)
next
  case (Suc n)
  from Suc.prems(1) obtain model brand g1 d g2 rounds' where
    rc: "random_choice pairs (rng w) = Inr ((model, brand), g1)"
    and oc: "offer_choices brands brand g1 = Inr (d, g2)"
    and sr: "session_rounds n brands pairs g2 = Inr (rounds', g')"
    and rounds: "rounds = (model, brand, d) # rounds'"
    by (auto split: sum.splits)
  from Suc.prems(2) obtain junk answer turns' where turns: "turns = (junk, answer) # turns'"
    by (cases turns) auto
  have junk: "\<forall>line\<in>set junk. \<not> accepted line" and ans: "accepted answer"
    and rest': "\<forall>(junk, answer)\<in>set turns'. (\<forall>line\<in>set junk. \<not> accepted line) \<and> accepted answer"
    using Suc.prems(3) unfolding turns by auto
  have inp: "stdin w = junk @ answer # (concat (map (\<lambda>(junk, answer). junk @ [answer]) turns') @ rest)"
    using Suc.prems(4) unfolding turns by simp
  let ?nc' = "if answered_correctly (model, brand, d) answer then nc + 1 else nc"
  from ask_question_turn[OF rc oc junk ans inp, of "qn + 1" nc] obtain o1 where
    aq: "ask_question brands pairs (qn + 1) nc w = (Return ?nc',
            w\<lparr>rng := g2, stdin := concat (map (\<lambda>(junk, answer). junk @ [answer]) turns') @ rest,
              stdout := stdout w @ o1\<rparr>)"
    by blast
  let ?w' = "w\<lparr>rng := g2, stdin := concat (map (\<lambda>(junk, answer). junk @ [answer]) turns') @ rest,
              stdout := stdout w @ o1\<rparr>"
  have "\<exists>out. question_loop n (qn + 1) ?nc' brands pairs ?w' =
           (Return (?nc' + length (filter (\<lambda>(r, t). answered_correctly r (snd t)) (zip rounds' turns'))),
            ?w'\<lparr>rng := g', stdin := rest, stdout := stdout ?w' @ out\<rparr>)
         \<and> length rounds' = n"
    using sr Suc.prems(2) rest' unfolding turns by (intro Suc.IH) simp_all
  then obtain o2 where
    ql: "question_loop n (qn + 1) ?nc' brands pairs ?w' =
           (Return (?nc' + length (filter (\<lambda>(r, t). answered_correctly r (snd t)) (zip rounds' turns'))),
            ?w'\<lparr>rng := g', stdin := rest, stdout := stdout ?w' @ o2\<rparr>)"
    and len: "length rounds' = n"
    by blast
  have "question_loop (Suc n) qn nc brands pairs w =
           (Return (nc + length (filter (\<lambda>(r, t). answered_correctly r (snd t)) (zip rounds turns))),
            w\<lparr>rng := g', stdin := rest, stdout := stdout w @ (o1 @ o2)\<rparr>)"
    using aq ql unfolding rounds turns by simp
  moreover have "length rounds = Suc n"
    using len rounds by simp
  ultimately have "question_loop (Suc n) qn nc brands pairs w =
           (Return (nc + length (filter (\<lambda>(r, t). answered_correctly r (snd t)) (zip rounds turns))),
            w\<lparr>rng := g', stdin := rest, stdout := stdout w @ (o1 @ o2)\<rparr>) \<and> length rounds = Suc n"
    by (rule conjI)
  then show ?case
    by (rule exI)
qed

lemma decimal_num_questions: "decimal num_questions = ''10''"
  by (simp add: num_questions_def decimal.simps digits_def)

lemma single_letter_rejected: "upper_char c \<notin> set letters \<Longrightarrow> \<not> accepted [c]"
  by (auto simp: accepted_def upper_def letters_def num_choices_def ascii_uppercase_def)

text \<open>
  When the ten rounds can be generated and the input holds ten turns, each a run of
  rejected lines followed by an accepted one, the session returns having consumed exactly
  those ten turns, and its last line of output is \<open>Score X/10\<close> with \<open>X\<close> the number
  of turns whose accepted line is mapped to the round's brand: \<open>10\<close> when all are,
  \<open>0\<close> when none is. A single character outside \<open>a\<close> to \<open>d\<close> and \<open>A\<close> to
  \<open>D\<close> is always rejected.
\<close>

lemma run_quiz_score:
  assumes rounds: "session_rounds num_questions brands model_brand_pairs (rng w) = Inr (rounds, g')"
    and n: "length turns = num_questions"
    and ok: "\<forall>(junk, answer)\<in>set turns. (\<forall>line\<in>set junk. \<not> accepted line) \<and> accepted answer"
    and inp: "stdin w = concat (map (\<lambda>(junk, answer). junk @ [answer]) turns) @ rest"
  shows "\<exists>w' out score. run_quiz brands model_brand_pairs w = (Return (), w')
         \<and> length rounds = 10
         \<and> score = length (filter (\<lambda>(r, t). answered_correctly r (snd t)) (zip rounds turns))
         \<and> stdout w' = stdout w @ out @ ''Score '' @ decimal score @ ''/10'' @ [CHR 0x0A]
         \<and> stdin w' = rest \<and> rng w' = g'
         \<and> ((\<forall>(r, t)\<in>set (zip rounds turns). answered_correctly r (snd t)) \<longrightarrow>
               stdout w' = stdout w @ out @ ''Score 10/10'' @ [CHR 0x0A])
         \<and> ((\<forall>(r, t)\<in>set (zip rounds turns). \<not> answered_correctly r (snd t)) \<longrightarrow>
               stdout w' = stdout w @ out @ ''Score 0/10'' @ [CHR 0x0A])
         \<and> (\<forall>c. upper_char c \<notin> set letters \<longrightarrow> \<not> accepted [c])"
proof -
  let ?score = "length (filter (\<lambda>(r, t). answered_correctly r (snd t)) (zip rounds turns))"
  from question_loop_turns[OF rounds n ok inp, of 0 0] obtain out where
    ql: "question_loop num_questions 0 0 brands model_brand_pairs w =
           (Return (0 + ?score), w\<lparr>rng := g', stdin := rest, stdout := stdout w @ out\<rparr>)"
    and len: "length rounds = num_questions"
    by blast
  let ?w' = "print (''Score '' @ decimal ?score @ ''/'' @ decimal num_questions)
               (w\<lparr>rng := g', stdin := rest, stdout := stdout w @ out\<rparr>)"
  have rq: "run_quiz brands model_brand_pairs w = (Return (), ?w')"
    using ql by (simp add: run_quiz_def)
  have so: "stdout ?w' = stdout w @ out @ ''Score '' @ decimal ?score @ ''/10'' @ [CHR 0x0A]"
    by (simp add: print_def decimal_num_questions)
  have lz: "length (zip rounds turns) = 10"
    using len n by (simp add: num_questions_def)
  have all: "(\<forall>(r, t)\<in>set (zip rounds turns). answered_correctly r (snd t)) \<longrightarrow> decimal ?score = ''10''"
  proof
    assume "\<forall>(r, t)\<in>set (zip rounds turns). answered_correctly r (snd t)"
    then have "filter (\<lambda>(r, t). answered_correctly r (snd t)) (zip rounds turns) = zip rounds turns"
      by (intro filter_True) auto
    then have "?score = num_questions"
      using lz by (simp add: num_questions_def)
    then show "decimal ?score = ''10''"
      by (simp add: decimal_num_questions)
  qed
  have none: "(\<forall>(r, t)\<in>set (zip rounds turns). \<not> answered_correctly r (snd t)) \<longrightarrow> decimal ?score = ''0''"
  proof
    assume "\<forall>(r, t)\<in>set (zip rounds turns). \<not> answered_correctly r (snd t)"
    then have "filter (\<lambda>(r, t). answered_correctly r (snd t)) (zip rounds turns) = []"
      by (intro filter_False) auto
    then show "decimal ?score = ''0''"
      by (simp add: decimal.simps digits_def)
  qed
  have "run_quiz brands model_brand_pairs w = (Return (), ?w')
         \<and> length rounds = 10
         \<and> ?score = length (filter (\<lambda>(r, t). answered_correctly r (snd t)) (zip rounds turns))
         \<and> stdout ?w' = stdout w @ out @ ''Score '' @ decimal ?score @ ''/10'' @ [CHR 0x0A]
         \<and> stdin ?w' = rest \<and> rng ?w' = g'
         \<and> ((\<forall>(r, t)\<in>set (zip rounds turns). answered_correctly r (snd t)) \<longrightarrow>
               stdout ?w' = stdout w @ out @ ''Score 10/10'' @ [CHR 0x0A])
         \<and> ((\<forall>(r, t)\<in>set (zip rounds turns). \<not> answered_correctly r (snd t)) \<longrightarrow>
               stdout ?w' = stdout w @ out @ ''Score 0/10'' @ [CHR 0x0A])
         \<and> (\<forall>c. upper_char c \<notin> set letters \<longrightarrow> \<not> accepted [c])"
    using rq len so all none single_letter_rejected
    by (simp add: num_questions_def print_def)
  then show ?thesis
    by blast
qed

text \<open>An input that is always right and one that is always wrong.\<close>

lemma run_quiz_score_example:
  "(\<exists>w' out. run_quiz quiz_brands quiz_pairs
        (quiz_world (concat (replicate 10 [''z'', ''c'']) @ [''left''])) = (Return (), w')
      \<and> stdout w' = out @ ''Score 10/10'' @ [CHR 0x0A] \<and> stdin w' = [''left''])
   \<and> (\<exists>w' out. run_quiz quiz_brands quiz_pairs
        (quiz_world (concat (replicate 10 [''E'', ''7'', ''b'']))) = (Return (), w')
      \<and> stdout w' = out @ ''Score 0/10'' @ [CHR 0x0A] \<and> stdin w' = [])"
proof -
  have r: "\<And>lines. session_rounds num_questions quiz_brands quiz_pairs (rng (quiz_world lines))
             = Inr (replicate 10 quiz_round_0, [])"
    by code_simp
  have n1: "length (replicate 10 ([''z''], ''c'')) = num_questions"
    and n2: "length (replicate 10 ([''E'', ''7''], ''b'')) = num_questions"
    by (simp_all add: num_questions_def)
  have ok1: "\<forall>(junk, answer)\<in>set (replicate 10 ([''z''], ''c'')).
               (\<forall>line\<in>set junk. \<not> accepted line) \<and> accepted answer"
    by code_simp
  have ok2: "\<forall>(junk, answer)\<in>set (replicate 10 ([''E'', ''7''], ''b'')).
               (\<forall>line\<in>set junk. \<not> accepted line) \<and> accepted answer"
    by code_simp
  have i1: "stdin (quiz_world (concat (replicate 10 [''z'', ''c'']) @ [''left'']))
              = concat (map (\<lambda>(junk, answer). junk @ [answer]) (replicate 10 ([''z''], ''c''))) @ [''left'']"
    by code_simp
  have i2: "stdin (quiz_world (concat (replicate 10 [''E'', ''7'', ''b'']))) 
              = concat (map (\<lambda>(junk, answer). junk @ [answer]) (replicate 10 ([''E'', ''7''], ''b''))) @ []"
    by code_simp
  have c1: "\<forall>(r, t)\<in>set (zip (replicate 10 quiz_round_0) (replicate 10 ([''z''], ''c''))).
               answered_correctly r (snd t)"
    by code_simp
  have c2: "\<forall>(r, t)\<in>set (zip (replicate 10 quiz_round_0) (replicate 10 ([''E'', ''7''], ''b''))).
               \<not> answered_correctly r (snd t)"
    by code_simp
  have s0: "\<And>lines. stdout (quiz_world lines) = []"
    by (simp add: quiz_world_def)
  from run_quiz_score[OF r n1 ok1 i1] c1 s0
  have 1: "\<exists>w' out. run_quiz quiz_brands quiz_pairs
        (quiz_world (concat (replicate 10 [''z'', ''c'']) @ [''left''])) = (Return (), w')
      \<and> stdout w' = out @ ''Score 10/10'' @ [CHR 0x0A] \<and> stdin w' = [''left'']"
    by (metis append_Nil)
  from run_quiz_score[OF r n2 ok2 i2] c2 s0
  have 2: "\<exists>w' out. run_quiz quiz_brands quiz_pairs
        (quiz_world (concat (replicate 10 [''E'', ''7'', ''b'']))) = (Return (), w')
      \<and> stdout w' = out @ ''Score 0/10'' @ [CHR 0x0A] \<and> stdin w' = []"
    by (metis append_Nil)
  from 1 2 show ?thesis
    by (rule conjI)
qed

text \<open>
  C8: an entry that is not one of the letters must be asked for again without consuming a
  round. The code tests \<open>user_choice in letters\<close> on the string \<open>ABCD\<close>, a substring
  test, so the empty line and \<open>ab\<close> pass it: ten empty lines are taken as ten wrong
  answers with no reprompt, and an empty line ahead of ten right answers costs the first
  round, leaving \<open>Score 9/10\<close> and one line unread.
\<close>

theorem run_quiz_accepts_empty_line:
  "accepted '''' \<and> accepted ''ab''
   \<and> run_quiz quiz_brands quiz_pairs (quiz_world (replicate 10 '''')) =
        (Return (),
         (quiz_world [])\<lparr>stdout :=
            concat (map (\<lambda>n. quiz_round_output n wrong_verdict) [1, 2, 3, 4, 5, 6, 7, 8, 9, 10])
            @ ''Score 0/10'' @ [CHR 0x0A]\<rparr>)
   \<and> run_quiz quiz_brands quiz_pairs (quiz_world ('''' # replicate 10 ''c'')) =
        (Return (),
         (quiz_world [''c''])\<lparr>stdout :=
            quiz_round_output 1 wrong_verdict
            @ concat (map (\<lambda>n. quiz_round_output n ''correct!'') [2, 3, 4, 5, 6, 7, 8, 9, 10])
            @ ''Score 9/10'' @ [CHR 0x0A]\<rparr>)"
  by code_simp

lemma random_sample_total:
  "k \<le> length population \<Longrightarrow> \<exists>sampled g'. random_sample population k g = Inr (sampled, g')"
  by (cases "sample_pool population k g") (simp add: random_sample_def)

lemma offer_choices_total:
  assumes "num_choices - 1 \<le> length brands"
  shows "\<exists>d g'. offer_choices brands brand g = Inr (d, g')"
proof -
  from random_sample_total[OF assms, of g] obtain sampled g1 where
    "random_sample brands (num_choices - 1) g = Inr (sampled, g1)"
    by blast
  then show ?thesis
    by (cases "random_shuffle (sampled @ [brand]) g1") (simp add: offer_choices_def)
qed

lemma random_choice_total:
  "seq \<noteq> [] \<Longrightarrow> \<exists>x g'. random_choice seq g = Inr (x, g')"
  by (cases "randbelow (length seq) g") (simp add: random_choice_def)

lemma question_loop_raise:
  "fst (ask_question brands pairs (qn + 1) nc w) = Raise e \<Longrightarrow>
     fst (question_loop (Suc n) qn nc brands pairs w) = Raise e"
  by (cases "ask_question brands pairs (qn + 1) nc w") simp

lemma run_quiz_too_few:
  assumes "length brands < num_choices - 1" "model_brand_pairs \<noteq> []"
  shows "fst (run_quiz brands model_brand_pairs w) = Raise ValueError"
proof -
  from random_choice_total[OF assms(2), of "rng w"] obtain model brand g1 where
    rc: "random_choice model_brand_pairs (rng w) = Inr ((model, brand), g1)"
    by (metis surj_pair)
  have oc: "\<And>g. offer_choices brands brand g = Inl ValueError"
    using assms(1) by (simp add: offer_choices_def random_sample_def)
  have nq: "num_questions = Suc 9"
    by (simp add: num_questions_def)
  have "fst (ask_question brands model_brand_pairs (0 + 1) 0 w) = Raise ValueError"
    unfolding ask_question_def rc by (simp add: oc Let_def)
  then have "fst (question_loop (Suc 9) 0 0 brands model_brand_pairs w) = Raise ValueError"
    by (rule question_loop_raise)
  then show ?thesis
    unfolding run_quiz_def nq
    by (cases "question_loop (Suc 9) 0 0 brands model_brand_pairs w") simp
qed

text \<open>
  C3, amended: with fewer than three distinct makers the sample of three raises
  \<open>ValueError\<close>, which nothing catches: the quiz and \<open>guess_car_brand\<close> end with
  it as soon as the store has a row; with three or more makers the sample and the
  building of the options return.
\<close>

theorem random_sample_brands:
  assumes "distinct brands"
  shows "(card (set brands) < 3 \<longrightarrow>
            random_sample brands (num_choices - 1) g = Inl ValueError
          \<and> (model_brand_pairs \<noteq> [] \<longrightarrow>
               fst (run_quiz brands model_brand_pairs w) = Raise ValueError
             \<and> (\<forall>table. map_of (files w) (path_join (module_dir w) ''model_codes_carscom.csv'')
                            = Some (Table table)
                        \<and> load_loop (DictReader table) [] [] = Inr (brands, model_brand_pairs)
                   \<longrightarrow> fst (guess_car_brand data_file w) = Raise ValueError)))
       \<and> (3 \<le> card (set brands) \<longrightarrow>
            (\<exists>sampled g'. random_sample brands (num_choices - 1) g = Inr (sampled, g'))
          \<and> (\<exists>d g'. offer_choices brands brand g = Inr (d, g')))"
proof -
  have card: "card (set brands) = length brands"
    using assms by (rule distinct_card)
  show ?thesis
  proof (intro conjI impI allI)
    assume "card (set brands) < 3"
    then show "random_sample brands (num_choices - 1) g = Inl ValueError"
      unfolding card by (simp add: random_sample_def num_choices_def)
  next
    assume "card (set brands) < 3" "model_brand_pairs \<noteq> []"
    then show "fst (run_quiz brands model_brand_pairs w) = Raise ValueError"
      unfolding card by (intro run_quiz_too_few) (simp_all add: num_choices_def)
  next
    fix table
    assume few: "card (set brands) < 3" and ne: "model_brand_pairs \<noteq> []"
      and store: "map_of (files w) (path_join (module_dir w) ''model_codes_carscom.csv'')
                            = Some (Table table)
                        \<and> load_loop (DictReader table) [] [] = Inr (brands, model_brand_pairs)"
    have "fst (run_quiz brands model_brand_pairs w) = Raise ValueError"
      using few ne unfolding card by (intro run_quiz_too_few) (simp_all add: num_choices_def)
    then show "fst (guess_car_brand data_file w) = Raise ValueError"
      using store
      by (cases "run_quiz brands model_brand_pairs w")
         (simp add: guess_car_brand_def path_exists_def)
  next
    assume "3 \<le> card (set brands)"
    then show "\<exists>sampled g'. random_sample brands (num_choices - 1) g = Inr (sampled, g')"
      unfolding card by (intro random_sample_total) (simp add: num_choices_def)
  next
    assume "3 \<le> card (set brands)"
    then show "\<exists>d g'. offer_choices brands brand g = Inr (d, g')"
      unfolding card by (intro offer_choices_total) (simp add: num_choices_def)
  qed
qed

text \<open>C3, amended, on a store of two makers and on a set of three brands.\<close>

theorem random_sample_brands_witness:
  "random_sample [Some ''Honda'', Some ''Ford''] (num_choices - 1) [] = Inl ValueError
   \<and> fst (guess_car_brand ''model_codes_carscom.csv'' small_store) = Raise ValueError
   \<and> (\<exists>sampled g'. random_sample [Some ''Honda'', Some ''Ford'', Some ''Kia''] (num_choices - 1) [2, 0, 0]
          = Inr (sampled, g'))"
proof -
  have d2: "distinct [Some ''Honda'', Some ''Ford'']"
    and d3: "distinct [Some ''Honda'', Some ''Ford'', Some ''Kia'']"
    by simp_all
  have c2: "card (set [Some ''Honda'', Some ''Ford'']) < 3"
    by simp
  have c3: "3 \<le> card (set [Some ''Honda'', Some ''Ford'', Some ''Kia''])"
    by simp
  have store: "map_of (files small_store) (path_join (module_dir small_store) ''model_codes_carscom.csv'')
         = Some (Table [[''maker'', ''model'', ''maker code'', ''model code''],
                       [''Honda'', ''Accord'', ''20017'', ''20606''],
                       [''Ford'', ''Focus'', ''20015'', ''21095'']])
      \<and> load_loop (DictReader [[''maker'', ''model'', ''maker code'', ''model code''],
                       [''Honda'', ''Accord'', ''20017'', ''20606''],
                       [''Ford'', ''Focus'', ''20015'', ''21095'']]) [] []
         = Inr ([Some ''Honda'', Some ''Ford''],
                [(Some ''Accord'', Some ''Honda''), (Some ''Focus'', Some ''Ford'')])"
    by code_simp
  have ne: "[(Some ''Accord'', Some ''Honda''), (Some ''Focus'', Some ''Ford'')] \<noteq> []"
    by simp
  from random_sample_brands[OF d2, of "[]" "[(Some ''Accord'', Some ''Honda''), (Some ''Focus'', Some ''Ford'')]"
      small_store "''model_codes_carscom.csv''"] c2 ne store
  have 1: "random_sample [Some ''Honda'', Some ''Ford''] (num_choices - 1) [] = Inl ValueError
   \<and> fst (guess_car_brand ''model_codes_carscom.csv'' small_store) = Raise ValueError"
    by blast
  from random_sample_brands[OF d3, of "[2, 0, 0]"] c3
  have 2: "\<exists>sampled g'. random_sample [Some ''Honda'', Some ''Ford'', Some ''Kia''] (num_choices - 1) [2, 0, 0]
          = Inr (sampled, g')"
    by blast
  from 1 2 show ?thesis
    by simp
qed

text \<open>
  C3, as the specification states it, fails: with three distinct makers, fewer than
  four, the sample of three returns and the options are built.
\<close>

theorem three_brands_counterexample:
  "card (set [Some ''Honda'', Some ''Ford'', Some ''Kia'']) < 4
   \<and> random_sample [Some ''Honda'', Some ''Ford'', Some ''Kia''] (num_choices - 1) []
        = Inr ([Some ''Honda'', Some ''Kia'', Some ''Ford''], [])
   \<and> offer_choices [Some ''Honda'', Some ''Ford'', Some ''Kia''] (Some ''Honda'') []
        = Inr ([(''A'', Some ''Kia''), (''B'', Some ''Ford''), (''C'', Some ''Honda''), (''D'', Some ''Honda'')], [])"
  by code_simp

end
